theory Spec2Isabelle
  imports Complex_Main
begin

section \<open>Body Systems Race: the simulation engine of app.py\<close>

text \<open>
  The engine of \<^verbatim>\<open>src/app.py\<close> is embedded here: the dataclass \<^verbatim>\<open>BodySystemRunner\<close>
  with its method \<^verbatim>\<open>update\<close>, the loop of \<^verbatim>\<open>simulate_race\<close> and the ranking of
  \<^verbatim>\<open>main\<close> (\<^verbatim>\<open>sorted(runners, key=sort_key)\<close>).

  Python's \<^verbatim>\<open>float\<close> is read as \<^typ>\<open>real\<close>: in the update rule and in the ranking
  every arithmetic operation is exact, there is no rounding, no overflow to infinity and
  no NaN. The decimal literals of the source (\<^verbatim>\<open>0.8\<close>, \<^verbatim>\<open>1e9\<close>, ...) are the
  rationals they denote.

  The clock of the race loop is embedded twice. \<open>race_loop\<close> advances it by exact
  addition; \<open>race_loop_float\<close> rounds every \<^verbatim>\<open>t += DT\<close> to the nearest binary64
  number, as the interpreter does. How many ticks a race runs, and whether it ends,
  depends on that rounding, so these statements are made on \<open>race_loop_float\<close>; the
  statements that compare finish times are made on \<open>race_loop\<close>.

  The three module constants \<^verbatim>\<open>RACE_DISTANCE\<close>, \<^verbatim>\<open>DT\<close> and \<^verbatim>\<open>MAX_RACE_TIME\<close> are
  parameters of the embedded functions; the values the module gives them are the
  constants of the same name, and \<open>simulate_race\<close> is the loop at those values.
\<close>

subsection \<open>Core configuration (app.py, lines 14-16)\<close>

definition RACE_DISTANCE :: real where
  "RACE_DISTANCE = 200"

definition DT :: real where
  "DT = 1 / 10"

definition MAX_RACE_TIME :: real where
  "MAX_RACE_TIME = 40"

subsection \<open>Failures\<close>

text \<open>
  The only operation of the engine that can raise on real numbers is the division
  \<^verbatim>\<open>/\<close>; it is modelled with its failure, so that every guard of the source is a
  branch of the model and every unguarded division could be seen to fail.
\<close>

datatype error = ZeroDivisionError

definition py_div :: "real \<Rightarrow> real \<Rightarrow> error + real" where
  "py_div a b = (if b = 0 then Inl ZeroDivisionError else Inr (a / b))"

text \<open>
  \<^verbatim>\<open>int(x)\<close> on a float truncates towards zero. On an infinity or a NaN it raises;
  a real number is neither, so that failure has no branch here.
\<close>

definition py_int :: "real \<Rightarrow> int" where
  "py_int x = (if x < 0 then \<lceil>x\<rceil> else \<lfloor>x\<rfloor>)"

subsection \<open>Data model (app.py, lines 23-49)\<close>

record BodySystemRunner =
  name :: string
  system :: string
  lane :: int
  acceleration :: real
  top_speed :: real
  stamina_max :: real
  stamina_regen :: real
  burst_multiplier :: real
  fatigue_factor :: real
  personality :: string
  ability :: string
  position :: real
  speed :: real
  stamina :: real
  finished :: bool
  finish_time :: "real option"

text \<open>
  The constructor call with the eleven static fields only, as \<^verbatim>\<open>create_runners\<close>
  writes it: the dataclass defaults give position 0, speed 0, not finished, no
  finish time, and \<^verbatim>\<open>__post_init__\<close> sets the stamina to \<^verbatim>\<open>stamina_max\<close>.
\<close>

definition new_runner ::
  "string \<Rightarrow> string \<Rightarrow> int \<Rightarrow> real \<Rightarrow> real \<Rightarrow> real \<Rightarrow> real \<Rightarrow> real \<Rightarrow> real \<Rightarrow> string \<Rightarrow> string
     \<Rightarrow> BodySystemRunner" where
  "new_runner n sy l a ts sm sr bm ff p ab =
     \<lparr>name = n, system = sy, lane = l, acceleration = a, top_speed = ts, stamina_max = sm,
      stamina_regen = sr, burst_multiplier = bm, fatigue_factor = ff, personality = p,
      ability = ab, position = 0, speed = 0, stamina = sm, finished = False,
      finish_time = None\<rparr>"

text \<open>The dynamic state a runner has when it is created this way.\<close>

definition initial_state :: "BodySystemRunner \<Rightarrow> bool" where
  "initial_state r \<longleftrightarrow>
     position r = 0 \<and> speed r = 0 \<and> stamina r = stamina_max r \<and> \<not> finished r \<and>
     finish_time r = None"

subsection \<open>The single-tick update (app.py, lines 51-166)\<close>

text \<open>Stage 1, lines 58-74: the target speed of the personality.\<close>

definition personality_target :: "BodySystemRunner \<Rightarrow> real \<Rightarrow> real" where
  "personality_target r race_progress =
     (let base_target = 0.8 * top_speed r in
      if personality r = ''aggressive'' then
        min (top_speed r) (base_target + 0.15 * top_speed r)
      else if personality r = ''calm'' then base_target
      else if personality r = ''tactical'' then
        (if race_progress < 0.4 then 0.7 * top_speed r
         else if race_progress < 0.8 then 0.9 * top_speed r
         else top_speed r)
      else if personality r = ''steady'' then 0.85 * top_speed r
      else base_target)"

text \<open>
  Stage 2, lines 81-88: the two abilities that add to \<^verbatim>\<open>self.stamina\<close>. The result is
  the stamina as it stands when stage 3 begins.
\<close>

definition ability_stamina :: "real \<Rightarrow> BodySystemRunner \<Rightarrow> real" where
  "ability_stamina dt r =
     (let st = stamina r;
          st = (if ability r = ''heart_engine'' then
                  (if speed r < top_speed r then st + stamina_regen r * 1.2 * dt else st)
                else st);
          st = (if ability r = ''deep_inhale'' then
                  (if py_int (position r) mod 20 = 0 \<and> position r > 0
                   then st + stamina_regen r * 3.0 * dt else st)
                else st)
      in st)"

text \<open>
  Stage 2, lines 91-109: the four abilities that change \<^verbatim>\<open>target_speed\<close>. The
  argument \<open>st\<close> is \<^verbatim>\<open>self.stamina\<close> at that point, that is after lines 81-88.
\<close>

definition ability_target ::
  "real \<Rightarrow> real \<Rightarrow> real \<Rightarrow> BodySystemRunner \<Rightarrow> real \<Rightarrow> real" where
  "ability_target global_time race_progress st r target_speed =
     (let ts = target_speed;
          ts = (if ability r = ''power_burst'' then
                  (if race_progress < 0.25 then min (top_speed r * 1.1) (ts * 1.15) else ts)
                else ts);
          ts = (if ability r = ''reflex_start'' then
                  (if global_time < 1.5 then min (top_speed r) (ts * 1.2) else ts)
                else ts);
          ts = (if ability r = ''adrenaline_surge'' then
                  (if race_progress > 0.6
                   then min (top_speed r * burst_multiplier r) (ts * burst_multiplier r)
                   else ts)
                else ts);
          ts = (if ability r = ''energy_conversion'' then
                  (if st < 0.3 * stamina_max r then min (top_speed r * 1.05) (ts * 1.1)
                   else ts)
                else ts)
      in ts)"

text \<open>Stage 3, lines 117-125: drain, regeneration and clamp of the stamina.\<close>

definition speed_fraction :: "BodySystemRunner \<Rightarrow> error + real" where
  "speed_fraction r = (if top_speed r > 0 then py_div (speed r) (top_speed r) else Inr 0)"

definition stamina_mechanics :: "real \<Rightarrow> BodySystemRunner \<Rightarrow> real \<Rightarrow> real \<Rightarrow> real" where
  "stamina_mechanics dt r sf st =
     (let drain_rate = 0.5 + 1.5 * sf;
          st = st - drain_rate * dt;
          st = (if sf < 0.7 then st + stamina_regen r * dt else st)
      in max 0 (min st (stamina_max r)))"

text \<open>Stage 4, lines 131-141: the fatigue penalty and the effective target speed.\<close>

definition stamina_fraction :: "BodySystemRunner \<Rightarrow> real \<Rightarrow> error + real" where
  "stamina_fraction r st = (if stamina_max r > 0 then py_div st (stamina_max r) else Inr 0)"

definition effective_target :: "BodySystemRunner \<Rightarrow> real \<Rightarrow> real \<Rightarrow> real" where
  "effective_target r target_speed stf =
     (let fatigue_penalty = (1 - stf) * fatigue_factor r;
          fatigue_penalty = (if ability r = ''fatigue_shield'' then fatigue_penalty * 0.4
                             else fatigue_penalty);
          effective_target_speed = max 0 (target_speed * (1 - fatigue_penalty));
          effective_target_speed =
            (if ability r = ''structural_stability'' then
               (let min_speed = 0.9 * 0.85 * top_speed r
                in max min_speed effective_target_speed)
             else effective_target_speed)
      in effective_target_speed)"

text \<open>Stage 5, lines 146-155: the speed moves towards the effective target.\<close>

definition approach_speed :: "real \<Rightarrow> BodySystemRunner \<Rightarrow> real \<Rightarrow> real" where
  "approach_speed dt r effective_target_speed =
     (let sp = (if speed r < effective_target_speed then
                  (let sp = speed r + acceleration r * dt
                   in if sp > effective_target_speed then effective_target_speed else sp)
                else
                  (let sp = speed r - acceleration r * 1.3 * dt
                   in if sp < effective_target_speed then effective_target_speed else sp))
      in max 0 sp)"

text \<open>
  The method itself. It returns the runner as the call leaves it; the first argument
  is the module constant \<^verbatim>\<open>RACE_DISTANCE\<close> that stage 6 (lines 161-166) reads.
\<close>

definition update ::
  "real \<Rightarrow> real \<Rightarrow> real \<Rightarrow> real \<Rightarrow> BodySystemRunner \<Rightarrow> error + BodySystemRunner" where
  "update race_distance dt global_time race_progress r =
     (if finished r then Inr r
      else
        let target_speed = personality_target r race_progress;
            st = ability_stamina dt r;
            target_speed = ability_target global_time race_progress st r target_speed
        in (case speed_fraction r of
              Inl e \<Rightarrow> Inl e
            | Inr sf \<Rightarrow>
                (let st = stamina_mechanics dt r sf st
                 in (case stamina_fraction r st of
                       Inl e \<Rightarrow> Inl e
                     | Inr stf \<Rightarrow>
                         (let sp = approach_speed dt r (effective_target r target_speed stf);
                              pos = position r + sp * dt
                          in if pos \<ge> race_distance then
                               Inr (r\<lparr>stamina := st, speed := sp, position := race_distance,
                                      finished := True, finish_time := Some global_time\<rparr>)
                             else Inr (r\<lparr>stamina := st, speed := sp, position := pos\<rparr>))))))"

text \<open>
  A sequence of calls of the method on one runner, each call with its own arguments
  \<open>(dt, global_time, race_progress)\<close>; an exception of a call would end the sequence.
\<close>

fun updates ::
  "real \<Rightarrow> (real \<times> real \<times> real) list \<Rightarrow> BodySystemRunner \<Rightarrow> error + BodySystemRunner" where
  "updates race_distance [] r = Inr r"
| "updates race_distance ((dt, global_time, race_progress) # calls) r =
     (case update race_distance dt global_time race_progress r of
        Inl e \<Rightarrow> Inl e
      | Inr r' \<Rightarrow> updates race_distance calls r')"

subsection \<open>Runner roster (app.py, lines 173-279)\<close>

definition create_runners :: "BodySystemRunner list" where
  "create_runners =
     [new_runner ''Cardio'' ''Cardiovascular'' 1 3.0 9.5 120.0 12.0 1.1 0.5
        ''calm'' ''heart_engine'',
      new_runner ''Lungster'' ''Respiratory'' 2 4.5 9.4 80.0 7.0 1.2 0.9
        ''aggressive'' ''deep_inhale'',
      new_runner ''Flexor'' ''Muscular'' 3 4.2 9.6 75.0 6.0 1.3 1.0
        ''aggressive'' ''power_burst'',
      new_runner ''Neuron'' ''Nervous'' 4 3.8 9.2 90.0 8.0 1.15 0.7
        ''tactical'' ''reflex_start'',
      new_runner ''Hormona'' ''Endocrine'' 5 3.5 9.7 85.0 7.0 1.3 0.8
        ''tactical'' ''adrenaline_surge'',
      new_runner ''Defenda'' ''Immune'' 6 2.8 9.0 130.0 11.0 1.05 0.3
        ''steady'' ''fatigue_shield'',
      new_runner ''Gastro'' ''Digestive'' 7 3.6 9.3 95.0 8.5 1.2 0.8
        ''tactical'' ''energy_conversion'',
      new_runner ''Bonestride'' ''Skeletal'' 8 2.4 9.1 110.0 10.0 1.1 0.6
        ''steady'' ''structural_stability'']"

subsection \<open>Simulation engine (app.py, lines 286-308)\<close>

text \<open>
  One entry of \<^verbatim>\<open>frames\<close>: the dictionary with the keys \<^verbatim>\<open>time\<close>, \<^verbatim>\<open>positions\<close>,
  \<^verbatim>\<open>stamina\<close> and \<^verbatim>\<open>speeds\<close> (the third field is named \<open>staminas\<close> here, the name
  \<open>stamina\<close> being the runner's field).
\<close>

record frame =
  time :: real
  positions :: "real list"
  staminas :: "real list"
  speeds :: "real list"

text \<open>Line 295-296: every runner is updated in roster order.\<close>

fun update_all ::
  "real \<Rightarrow> real \<Rightarrow> real \<Rightarrow> real \<Rightarrow> BodySystemRunner list \<Rightarrow> error + BodySystemRunner list" where
  "update_all race_distance dt global_time race_progress [] = Inr []"
| "update_all race_distance dt global_time race_progress (r # rs) =
     (case update race_distance dt global_time race_progress r of
        Inl e \<Rightarrow> Inl e
      | Inr r' \<Rightarrow>
          (case update_all race_distance dt global_time race_progress rs of
             Inl e \<Rightarrow> Inl e
           | Inr rs' \<Rightarrow> Inr (r' # rs')))"

text \<open>
  Lines 292-293: the race progress, from the positions the runners have before the
  tick. The division by \<^verbatim>\<open>len(runners)\<close> is not guarded in the source; the division by
  \<^verbatim>\<open>RACE_DISTANCE\<close> is.
\<close>

definition race_progress_of :: "real \<Rightarrow> BodySystemRunner list \<Rightarrow> error + real" where
  "race_progress_of race_distance runners =
     (case py_div (sum_list (map position runners)) (real (length runners)) of
        Inl e \<Rightarrow> Inl e
      | Inr avg_position \<Rightarrow>
          (if race_distance > 0 then py_div avg_position race_distance else Inr 0))"

text \<open>
  The body of the \<^verbatim>\<open>while\<close> loop, lines 292-306, on the loop's variables
  \<open>(t, frames, runners)\<close>.
\<close>

definition race_tick ::
  "real \<Rightarrow> real \<Rightarrow> real \<Rightarrow> frame list \<Rightarrow> BodySystemRunner list
     \<Rightarrow> error + (real \<times> frame list \<times> BodySystemRunner list)" where
  "race_tick dt race_distance t frames runners =
     (case race_progress_of race_distance runners of
        Inl e \<Rightarrow> Inl e
      | Inr rp \<Rightarrow>
          (case update_all race_distance dt t rp runners of
             Inl e \<Rightarrow> Inl e
           | Inr runners' \<Rightarrow>
               Inr (t + dt,
                    frames @ [\<lparr>time = t, positions = map position runners',
                               staminas = map stamina runners',
                               speeds = map speed runners'\<rparr>],
                    runners')))"

text \<open>
  The \<^verbatim>\<open>while\<close> loop of line 291. \<open>None\<close> is a loop that never ends, \<open>Some (Inl e)\<close> an
  exception raised in its body, \<open>Some (Inr (t, frames, runners))\<close> the variables at
  the exit.
\<close>

partial_function (option) race_loop ::
  "real \<Rightarrow> real \<Rightarrow> real \<Rightarrow> real \<Rightarrow> frame list \<Rightarrow> BodySystemRunner list
     \<Rightarrow> (error + (real \<times> frame list \<times> BodySystemRunner list)) option" where
  "race_loop dt race_distance max_race_time t frames runners =
     (if t < max_race_time \<and> \<not> list_all finished runners then
        (case race_tick dt race_distance t frames runners of
           Inl e \<Rightarrow> Some (Inl e)
         | Inr (t', frames', runners') \<Rightarrow>
             race_loop dt race_distance max_race_time t' frames' runners')
      else Some (Inr (t, frames, runners)))"

declare race_loop.simps [code]

text \<open>
  \<^verbatim>\<open>simulate_race\<close> on a given roster and with given constants: the loop started at
  \<open>t = 0\<close> with no frame, returning \<^verbatim>\<open>frames\<close> and \<^verbatim>\<open>runners\<close>.
\<close>

definition run_race ::
  "BodySystemRunner list \<Rightarrow> real \<Rightarrow> real \<Rightarrow> real
     \<Rightarrow> (error + (frame list \<times> BodySystemRunner list)) option" where
  "run_race roster dt race_distance max_race_time =
     map_option (map_sum id snd) (race_loop dt race_distance max_race_time 0 [] roster)"

definition simulate_race :: "(error + (frame list \<times> BodySystemRunner list)) option" where
  "simulate_race = run_race create_runners DT RACE_DISTANCE MAX_RACE_TIME"

text \<open>
  The loop body run \<open>n\<close> times with neither the test of line 291 nor the cap: the
  states the loop goes through, and what a race without a cap would go on to.
\<close>

fun ticks ::
  "nat \<Rightarrow> real \<Rightarrow> real \<Rightarrow> real \<Rightarrow> frame list \<Rightarrow> BodySystemRunner list
     \<Rightarrow> error + (real \<times> frame list \<times> BodySystemRunner list)" where
  "ticks 0 dt race_distance t frames runners = Inr (t, frames, runners)"
| "ticks (Suc n) dt race_distance t frames runners =
     (case race_tick dt race_distance t frames runners of
        Inl e \<Rightarrow> Inl e
      | Inr (t', frames', runners') \<Rightarrow> ticks n dt race_distance t' frames' runners')"

subsection \<open>The clock in binary64 arithmetic (app.py, line 306)\<close>

text \<open>
  Line 306, \<^verbatim>\<open>t += DT\<close>, adds two binary64 numbers: the exact sum is rounded to the
  nearest binary64 number, a tie going to the even significand. \<open>double_round\<close> is that
  rounding on the reals: a number \<open>x \<noteq> 0\<close> with \<open>2^e \<le> |x| < 2^(e+1)\<close> is rounded to the
  nearest multiple of \<open>2^(e-52)\<close>, which leaves it 53 significant bits. The exponent
  range of binary64 is not modelled (no overflow to infinity, no subnormal numbers): a
  clock that runs from 0 to a cap stays far from both ends of it.
\<close>

definition round_half_even :: "real \<Rightarrow> int" where
  "round_half_even y =
     (let f = \<lfloor>y\<rfloor>; d = y - of_int f
      in if d < 1 / 2 then f else if d > 1 / 2 then f + 1 else if even f then f else f + 1)"

definition double_round :: "real \<Rightarrow> real" where
  "double_round x =
     (if x = 0 then 0
      else let ulp = 2 powr (of_int \<lfloor>log 2 \<bar>x\<bar>\<rfloor> - 52)
           in ulp * of_int (round_half_even (x / ulp)))"

text \<open>The largest relative error of one rounding.\<close>

definition unit_roundoff :: real where
  "unit_roundoff = 1 / 2 ^ 53"

text \<open>
  The binary64 number that the literal \<^verbatim>\<open>0.1\<close> of line 15 denotes (lemma
  \<open>double_round_tenth\<close> below): the time step the interpreter runs the module with.
\<close>

definition DT_double :: real where
  "DT_double = 3602879701896397 / 36028797018963968"

text \<open>
  The body of the loop and the loop, with the clock of line 306 rounded. Nothing else
  differs from \<open>race_tick\<close>, \<open>race_loop\<close> and \<open>ticks\<close>: the update rule is still read
  in exact arithmetic.
\<close>

definition race_tick_float ::
  "real \<Rightarrow> real \<Rightarrow> real \<Rightarrow> frame list \<Rightarrow> BodySystemRunner list
     \<Rightarrow> error + (real \<times> frame list \<times> BodySystemRunner list)" where
  "race_tick_float dt race_distance t frames runners =
     (case race_progress_of race_distance runners of
        Inl e \<Rightarrow> Inl e
      | Inr rp \<Rightarrow>
          (case update_all race_distance dt t rp runners of
             Inl e \<Rightarrow> Inl e
           | Inr runners' \<Rightarrow>
               Inr (double_round (t + dt),
                    frames @ [\<lparr>time = t, positions = map position runners',
                               staminas = map stamina runners',
                               speeds = map speed runners'\<rparr>],
                    runners')))"

partial_function (option) race_loop_float ::
  "real \<Rightarrow> real \<Rightarrow> real \<Rightarrow> real \<Rightarrow> frame list \<Rightarrow> BodySystemRunner list
     \<Rightarrow> (error + (real \<times> frame list \<times> BodySystemRunner list)) option" where
  "race_loop_float dt race_distance max_race_time t frames runners =
     (if t < max_race_time \<and> \<not> list_all finished runners then
        (case race_tick_float dt race_distance t frames runners of
           Inl e \<Rightarrow> Some (Inl e)
         | Inr (t', frames', runners') \<Rightarrow>
             race_loop_float dt race_distance max_race_time t' frames' runners')
      else Some (Inr (t, frames, runners)))"

fun ticks_float ::
  "nat \<Rightarrow> real \<Rightarrow> real \<Rightarrow> real \<Rightarrow> frame list \<Rightarrow> BodySystemRunner list
     \<Rightarrow> error + (real \<times> frame list \<times> BodySystemRunner list)" where
  "ticks_float 0 dt race_distance t frames runners = Inr (t, frames, runners)"
| "ticks_float (Suc n) dt race_distance t frames runners =
     (case race_tick_float dt race_distance t frames runners of
        Inl e \<Rightarrow> Inl e
      | Inr (t', frames', runners') \<Rightarrow> ticks_float n dt race_distance t' frames' runners')"

text \<open>The number of frames a loop has recorded, if it returns.\<close>

definition frames_recorded ::
  "(error + real \<times> frame list \<times> BodySystemRunner list) option \<Rightarrow> nat option" where
  "frames_recorded res =
     (case res of Some (Inr (t, frames, runners)) \<Rightarrow> Some (length frames) | _ \<Rightarrow> None)"

subsection \<open>Result ranking (app.py, lines 426-429)\<close>

text \<open>
  \<^verbatim>\<open>sort_key\<close> of \<^verbatim>\<open>main\<close>, and \<^verbatim>\<open>sorted(runners, key=sort_key)\<close>. Python's \<^verbatim>\<open>sorted\<close> is
  stable, and so is \<^const>\<open>sort_key\<close> of the list library; a stable sort has one
  result only.
\<close>

definition sort_key_runner :: "BodySystemRunner \<Rightarrow> real" where
  "sort_key_runner r = (case finish_time r of Some ft \<Rightarrow> ft | None \<Rightarrow> 1000000000)"

definition ordered :: "BodySystemRunner list \<Rightarrow> BodySystemRunner list" where
  "ordered runners = sort_key sort_key_runner runners"

subsection \<open>Derived quantities\<close>

text \<open>
  What one call of \<^verbatim>\<open>update\<close> on an unfinished runner computes, named so that the
  properties can speak of it: the value of \<^verbatim>\<open>speed_fraction\<close>, the stamina after
  stage 3 and the speed after stage 5. Lemma \<open>update_unfinished\<close> below shows that
  these are the values the method stores.
\<close>

definition speed_fraction_of :: "BodySystemRunner \<Rightarrow> real" where
  "speed_fraction_of r = (if top_speed r > 0 then speed r / top_speed r else 0)"

definition stamina_after :: "real \<Rightarrow> BodySystemRunner \<Rightarrow> real" where
  "stamina_after dt r = stamina_mechanics dt r (speed_fraction_of r) (ability_stamina dt r)"

definition speed_after :: "real \<Rightarrow> real \<Rightarrow> real \<Rightarrow> BodySystemRunner \<Rightarrow> real" where
  "speed_after dt global_time race_progress r =
     approach_speed dt r
       (effective_target r
          (ability_target global_time race_progress (ability_stamina dt r) r
             (personality_target r race_progress))
          (if stamina_max r > 0 then stamina_after dt r / stamina_max r else 0))"

text \<open>The declared ranges of stamina and speed.\<close>

definition in_range :: "BodySystemRunner \<Rightarrow> bool" where
  "in_range r \<longleftrightarrow>
     0 \<le> stamina r \<and> stamina r \<le> stamina_max r \<and>
     0 \<le> speed r \<and> speed r \<le> top_speed r * max (burst_multiplier r) 1.1"

text \<open>Two runners that differ in their dynamic state at most.\<close>

definition same_static :: "BodySystemRunner \<Rightarrow> BodySystemRunner \<Rightarrow> bool" where
  "same_static r r' \<longleftrightarrow>
     name r' = name r \<and> system r' = system r \<and> lane r' = lane r \<and>
     acceleration r' = acceleration r \<and> top_speed r' = top_speed r \<and>
     stamina_max r' = stamina_max r \<and> stamina_regen r' = stamina_regen r \<and>
     burst_multiplier r' = burst_multiplier r \<and> fatigue_factor r' = fatigue_factor r \<and>
     personality r' = personality r \<and> ability r' = ability r"

subsection \<open>Runners of the examples\<close>

text \<open>
  The runner of the single-runner scenario (acceleration 5, top speed 10, stamina 100,
  regeneration 10, burst multiplier 1, fatigue factor 0, calm, no ability).
\<close>

definition calm_runner :: BodySystemRunner where
  "calm_runner = new_runner ''Solo'' ''None'' 1 5 10 100 10 1 0 ''calm'' ''none''"

text \<open>
  The same runner after a sprint over 20 m with a time step of 1 s: it finishes at the
  third tick, which starts at \<open>t = 2\<close>.
\<close>

definition calm_runner_done :: BodySystemRunner where
  "calm_runner_done =
     calm_runner\<lparr>stamina := 983 / 10, speed := 8, position := 20, finished := True,
                 finish_time := Some 2\<rparr>"

text \<open>A second runner with the parameters of \<open>calm_runner\<close>, and its state after the sprint.\<close>

definition calm_rival :: BodySystemRunner where
  "calm_rival = calm_runner\<lparr>name := ''Rival'', lane := 2\<rparr>"

definition calm_rival_done :: BodySystemRunner where
  "calm_rival_done = calm_runner_done\<lparr>name := ''Rival'', lane := 2\<rparr>"

text \<open>A runner all of whose numeric parameters are 0.\<close>

definition degenerate_runner :: BodySystemRunner where
  "degenerate_runner = new_runner ''Degenerate'' ''None'' 1 0 0 0 0 0 0 ''calm'' ''none''"

text \<open>
  A runner with a negative top speed and a fatigue factor above 1; its other
  parameters are in their declared ranges.
\<close>

definition backward_runner :: BodySystemRunner where
  "backward_runner = new_runner ''Backward'' ''None'' 1 5 (-10) 1 0 1 3 ''calm'' ''none''"

text \<open>A runner with top speed 0.\<close>

definition stalled_runner :: BodySystemRunner where
  "stalled_runner =
     new_runner ''Stalled'' ''None'' 1 5 0 100 10 1 3 ''aggressive'' ''adrenaline_surge''"

text \<open>
  The roster's runner with the lung-type ability, 20 m into a race, and the same
  runner one tick later (20.345 m).
\<close>

definition lung_runner :: BodySystemRunner where
  "lung_runner =
     (new_runner ''Lungster'' ''Respiratory'' 2 4.5 9.4 80.0 7.0 1.2 0.9
        ''aggressive'' ''deep_inhale'')\<lparr>position := 20, speed := 3, stamina := 40\<rparr>"

definition lung_runner_next :: BodySystemRunner where
  "lung_runner_next =
     lung_runner\<lparr>stamina := 2007 / 47, speed := 69 / 20, position := 4069 / 200\<rparr>"

subsection \<open>The trigger of the lung-type ability, in the words of the specification\<close>

text \<open>
  ``The floor of the position is a multiple of 20, and the position is positive.''
  The source tests \<^verbatim>\<open>int(self.position) % 20 == 0 and self.position > 0\<close>, with the
  truncation \<open>py_int\<close>.
\<close>

definition deep_inhale_trigger :: "BodySystemRunner \<Rightarrow> bool" where
  "deep_inhale_trigger r \<longleftrightarrow> \<lfloor>position r\<rfloor> mod 20 = 0 \<and> position r > 0"

subsection \<open>Predicates on runners and loop states\<close>

text \<open>
  A runner is consistent when it is finished exactly when it has a finish time; it is
  timed for a cap when, moreover, its finish time (if any) lies in \<open>[0, cap)\<close>; its
  finish time is not before a time when it is unset or at least that time; it is
  below the sentinel when its finish time (if any) is below the \<^verbatim>\<open>1e9\<close> of
  \<^verbatim>\<open>sort_key\<close>. A loop state is running when the test of line 291 lets the body run.
\<close>

definition consistent :: "BodySystemRunner \<Rightarrow> bool" where
  "consistent r \<longleftrightarrow> (finished r \<longleftrightarrow> finish_time r \<noteq> None)"

definition timed :: "real \<Rightarrow> BodySystemRunner \<Rightarrow> bool" where
  "timed mt r \<longleftrightarrow>
     consistent r \<and> (case finish_time r of None \<Rightarrow> True | Some ft \<Rightarrow> 0 \<le> ft \<and> ft < mt)"

definition not_before :: "real \<Rightarrow> BodySystemRunner \<Rightarrow> bool" where
  "not_before mt r \<longleftrightarrow> (case finish_time r of None \<Rightarrow> True | Some ft \<Rightarrow> mt \<le> ft)"

definition below_sentinel :: "BodySystemRunner \<Rightarrow> bool" where
  "below_sentinel r \<longleftrightarrow>
     (case finish_time r of None \<Rightarrow> True | Some ft \<Rightarrow> ft < 1000000000)"

definition running :: "real \<Rightarrow> real \<times> frame list \<times> BodySystemRunner list \<Rightarrow> bool" where
  "running mt s \<longleftrightarrow> (case s of (t, fs, rs) \<Rightarrow> t < mt \<and> \<not> list_all finished rs)"

text \<open>
  The rounded clock of a loop started at 0, after the frames recorded so far: it is
  not negative, and it is at least the exact time less the rounding accumulated over
  the ticks.
\<close>

definition clock_sound :: "real \<Rightarrow> real \<Rightarrow> frame list \<Rightarrow> bool" where
  "clock_sound dt t frames \<longleftrightarrow>
     0 \<le> t \<and>
     dt * real (length frames) * (1 - real (length frames) * unit_roundoff) \<le> t"

text \<open>
  An unfinished runner with the static parameters of \<open>calm_runner\<close>, at a given speed
  and position.
\<close>

definition calm_state :: "real \<Rightarrow> real \<Rightarrow> BodySystemRunner \<Rightarrow> bool" where
  "calm_state v p r \<longleftrightarrow>
     same_static calm_runner r \<and> speed r = v \<and> position r = p \<and> \<not> finished r \<and>
     finish_time r = None"

section \<open>Properties\<close>

subsection \<open>The update as a function\<close>

lemma speed_fraction_eq:
  "speed_fraction r = Inr (if top_speed r > 0 then speed r / top_speed r else 0)"
  by (simp add: speed_fraction_def py_div_def)

lemma stamina_fraction_eq:
  "stamina_fraction r st = Inr (if stamina_max r > 0 then st / stamina_max r else 0)"
  by (simp add: stamina_fraction_def py_div_def)

lemma update_unfinished:
  "\<not> finished r \<Longrightarrow>
   update rd dt gt rp r =
     Inr (if position r + speed_after dt gt rp r * dt \<ge> rd
          then r\<lparr>stamina := stamina_after dt r, speed := speed_after dt gt rp r,
                 position := rd, finished := True, finish_time := Some gt\<rparr>
          else r\<lparr>stamina := stamina_after dt r, speed := speed_after dt gt rp r,
                 position := position r + speed_after dt gt rp r * dt\<rparr>)"
  by (simp add: update_def speed_fraction_eq stamina_fraction_eq Let_def
        speed_fraction_of_def stamina_after_def speed_after_def)

lemma update_finished: "finished r \<Longrightarrow> update rd dt gt rp r = Inr r"
  by (simp add: update_def)

lemma update_total: "\<exists>r'. update rd dt gt rp r = Inr r'"
  by (cases "finished r") (simp_all add: update_finished update_unfinished)

lemma personality_target_bounds:
  assumes "0 \<le> top_speed r"
  shows "0 \<le> personality_target r rp" and "personality_target r rp \<le> top_speed r"
  using assms by (auto simp: personality_target_def Let_def min_def)

lemma ability_target_nonneg:
  assumes "0 \<le> top_speed r" "0 \<le> burst_multiplier r" "0 \<le> ts"
  shows "0 \<le> ability_target gt rp st r ts"
  using assms by (auto simp: ability_target_def Let_def min_def)

lemma speed_bound_ge:
  assumes "0 \<le> top_speed r"
  shows "top_speed r * 1.1 \<le> top_speed r * max (burst_multiplier r) 1.1"
    and "top_speed r * burst_multiplier r \<le> top_speed r * max (burst_multiplier r) 1.1"
proof -
  have "(1.1::real) \<le> max (burst_multiplier r) 1.1" by simp
  thus "top_speed r * 1.1 \<le> top_speed r * max (burst_multiplier r) 1.1"
    using assms by (rule mult_left_mono)
  have "burst_multiplier r \<le> max (burst_multiplier r) 1.1" by simp
  thus "top_speed r * burst_multiplier r \<le> top_speed r * max (burst_multiplier r) 1.1"
    using assms by (rule mult_left_mono)
qed

lemma ability_target_le:
  assumes "0 \<le> top_speed r" "ts \<le> top_speed r"
  shows "ability_target gt rp st r ts \<le> top_speed r * max (burst_multiplier r) 1.1"
proof -
  let ?B = "top_speed r * max (burst_multiplier r) 1.1"
  have a: "top_speed r * 1.1 \<le> ?B" "top_speed r * burst_multiplier r \<le> ?B"
    using speed_bound_ge[OF assms(1)] by auto
  have b: "top_speed r \<le> ?B" "top_speed r * 1.05 \<le> ?B" "ts \<le> ?B"
    using a(1) assms by auto
  show ?thesis
    using a b by (auto simp: ability_target_def Let_def min_def)
qed

lemma effective_target_nonneg:
  assumes "0 \<le> top_speed r"
  shows "0 \<le> effective_target r ts stf"
  using assms by (auto simp: effective_target_def Let_def max_def)

lemma effective_target_le:
  assumes "0 \<le> top_speed r" "0 \<le> ts" "ts \<le> top_speed r * max (burst_multiplier r) 1.1"
    "stf \<le> 1" "0 \<le> fatigue_factor r"
  shows "effective_target r ts stf \<le> top_speed r * max (burst_multiplier r) 1.1"
proof -
  let ?B = "top_speed r * max (burst_multiplier r) 1.1"
  have pen: "0 \<le> (1 - stf) * fatigue_factor r" using assms by simp
  have m1: "ts * (1 - (1 - stf) * fatigue_factor r) \<le> ts"
    using pen assms(2) by (simp add: mult_left_le)
  have pen': "0 \<le> (1 - stf) * fatigue_factor r * 0.4" using pen by simp
  have m2: "ts * (1 - (1 - stf) * fatigue_factor r * 0.4) \<le> ts"
    using pen' assms(2) by (simp add: mult_left_le mult_nonneg_nonneg)
  have B0: "0 \<le> ?B" using assms(2,3) by simp
  have st: "0.9 * 0.85 * top_speed r \<le> ?B"
    using speed_bound_ge(1)[OF assms(1)] assms(1) by simp
  show ?thesis
    using m1 m2 B0 st assms(3)
    by (auto simp: effective_target_def Let_def max_def)
qed

lemma approach_speed_nonneg: "0 \<le> approach_speed dt r eff"
  by (simp add: approach_speed_def Let_def)

lemma approach_speed_le:
  assumes "0 \<le> acceleration r" "0 \<le> dt" "speed r \<le> B" "eff \<le> B" "0 \<le> B"
  shows "approach_speed dt r eff \<le> B"
proof -
  define a where "a = acceleration r * dt"
  define d where "d = acceleration r * 1.3 * dt"
  have d0: "0 \<le> d" unfolding d_def using assms(1,2) by (simp add: zero_le_mult_iff)
  have eq: "approach_speed dt r eff =
      max 0 (if speed r < eff then (if speed r + a > eff then eff else speed r + a)
             else (if speed r - d < eff then eff else speed r - d))"
    by (simp add: approach_speed_def Let_def a_def d_def)
  show ?thesis unfolding eq using d0 assms(3-5) by auto
qed

lemma stamina_mechanics_bounds:
  assumes "0 \<le> stamina_max r"
  shows "0 \<le> stamina_mechanics dt r sf st" "stamina_mechanics dt r sf st \<le> stamina_max r"
  using assms by (auto simp: stamina_mechanics_def Let_def)

lemma update_same_static: "update rd dt gt rp r = Inr r' \<Longrightarrow> same_static r r'"
  by (cases "finished r") (auto simp: update_finished update_unfinished same_static_def split: if_splits)

lemma updates_same_static: "updates rd calls r = Inr r' \<Longrightarrow> same_static r r'"
proof (induction calls arbitrary: r)
  case Nil
  then show ?case by (simp add: same_static_def)
next
  case (Cons c calls)
  obtain dt gt rp where c: "c = (dt, gt, rp)" by (cases c)
  obtain r1 where r1: "update rd dt gt rp r = Inr r1" using update_total by blast
  with Cons.prems c have "updates rd calls r1 = Inr r'" by simp
  from Cons.IH[OF this] update_same_static[OF r1] show ?case
    by (simp add: same_static_def)
qed

lemma stamina_after_bounds:
  assumes "0 \<le> stamina_max r"
  shows "0 \<le> stamina_after dt r" "stamina_after dt r \<le> stamina_max r"
  using stamina_mechanics_bounds[OF assms] by (simp_all add: stamina_after_def)

lemma speed_after_nonneg: "0 \<le> speed_after dt gt rp r"
  by (simp add: speed_after_def approach_speed_nonneg)

lemma speed_after_le:
  assumes "0 \<le> acceleration r" "0 \<le> top_speed r" "0 \<le> stamina_max r"
    "0 \<le> fatigue_factor r" "0 \<le> burst_multiplier r" "0 \<le> dt"
    "speed r \<le> top_speed r * max (burst_multiplier r) 1.1"
  shows "speed_after dt gt rp r \<le> top_speed r * max (burst_multiplier r) 1.1"
proof -
  let ?B = "top_speed r * max (burst_multiplier r) 1.1"
  let ?ts = "ability_target gt rp (ability_stamina dt r) r (personality_target r rp)"
  let ?stf = "if stamina_max r > 0 then stamina_after dt r / stamina_max r else 0"
  have ts0: "0 \<le> ?ts"
    using assms(2,5) personality_target_bounds(1)[OF assms(2)] by (rule ability_target_nonneg)
  have tsB: "?ts \<le> ?B"
    using assms(2) personality_target_bounds(2)[OF assms(2)] by (rule ability_target_le)
  have stf: "?stf \<le> 1"
    using stamina_after_bounds(2)[OF assms(3), of dt] by simp
  have eff: "effective_target r ?ts ?stf \<le> ?B"
    using assms(2) ts0 tsB stf assms(4) by (rule effective_target_le)
  have B0: "0 \<le> ?B" using ts0 tsB by linarith
  show ?thesis
    unfolding speed_after_def
    using assms(1,6,7) eff B0 by (rule approach_speed_le)
qed

lemma update_in_range:
  assumes "update rd dt gt rp r = Inr r'" "in_range r"
    "0 \<le> acceleration r" "0 \<le> top_speed r" "0 \<le> stamina_max r"
    "0 \<le> fatigue_factor r" "0 \<le> burst_multiplier r" "0 \<le> dt"
  shows "in_range r'"
proof (cases "finished r")
  case True
  with assms(1,2) show ?thesis by (simp add: update_finished)
next
  case False
  have sp: "speed_after dt gt rp r \<le> top_speed r * max (burst_multiplier r) 1.1"
    using assms(3-8) assms(2) by (intro speed_after_le) (simp_all add: in_range_def)
  from False assms(1) sp speed_after_nonneg[of dt gt rp r] stamina_after_bounds[OF assms(5), of dt]
  show ?thesis
    by (auto simp: update_unfinished in_range_def split: if_splits)
qed

lemma updates_in_range:
  assumes "in_range r"
    "0 \<le> acceleration r" "0 \<le> top_speed r" "0 \<le> stamina_max r"
    "0 \<le> fatigue_factor r" "0 \<le> burst_multiplier r" "\<forall>c \<in> set calls. 0 < fst c"
  shows "\<exists>r'. updates rd calls r = Inr r' \<and> in_range r'"
  using assms
proof (induction calls arbitrary: r)
  case Nil
  then show ?case by simp
next
  case (Cons c calls)
  obtain dt gt rp where c: "c = (dt, gt, rp)" by (cases c)
  obtain r1 where r1: "update rd dt gt rp r = Inr r1" using update_total by blast
  have dt: "0 \<le> dt" using Cons.prems(7) c by simp
  have ir: "in_range r1"
    using r1 Cons.prems(1-6) dt by (rule update_in_range)
  have ss: "same_static r r1" using r1 by (rule update_same_static)
  have "\<exists>r'. updates rd calls r1 = Inr r' \<and> in_range r'"
    using ir Cons.prems(2-7) ss by (intro Cons.IH) (simp_all add: same_static_def)
  thus ?case using r1 c by simp
qed

text \<open>Unfolding everything one call of the method computes, for concrete runners.\<close>

lemmas eval_update =
  update_unfinished speed_after_def stamina_after_def speed_fraction_of_def
  approach_speed_def effective_target_def ability_target_def ability_stamina_def
  personality_target_def stamina_mechanics_def Let_def py_int_def

subsection \<open>The position\<close>

lemma update_position_mono:
  assumes "0 \<le> dt" "update rd dt gt rp r = Inr r'" "finished r \<or> position r \<le> rd"
  shows "position r \<le> position r'"
proof (cases "finished r")
  case True
  with assms(2) show ?thesis by (simp add: update_finished)
next
  case False
  have "0 \<le> speed_after dt gt rp r * dt"
    using speed_after_nonneg[of dt gt rp r] assms(1) by simp
  with False assms(2,3) show ?thesis
    by (auto simp: update_unfinished split: if_splits)
qed

lemma update_position_le:
  assumes "update rd dt gt rp r = Inr r'" "position r \<le> rd"
  shows "position r' \<le> rd"
  using assms
  by (cases "finished r") (auto simp: update_finished update_unfinished split: if_splits)

lemma updates_position_le:
  assumes "updates rd calls r = Inr r'" "position r \<le> rd"
  shows "position r' \<le> rd"
  using assms
proof (induction calls arbitrary: r)
  case Nil
  then show ?case by simp
next
  case (Cons c calls)
  obtain dt gt rp where c: "c = (dt, gt, rp)" by (cases c)
  obtain r1 where r1: "update rd dt gt rp r = Inr r1" using update_total by blast
  from Cons.prems(1) c r1 have "updates rd calls r1 = Inr r'" by simp
  moreover have "position r1 \<le> rd" using r1 Cons.prems(2) by (rule update_position_le)
  ultimately show ?case by (rule Cons.IH)
qed

subsection \<open>The lung-type ability\<close>

lemma py_int_pos: "0 < x \<Longrightarrow> py_int x = \<lfloor>x\<rfloor>"
  by (simp add: py_int_def)

lemma deep_inhale_condition:
  "(py_int (position r) mod 20 = 0 \<and> position r > 0) \<longleftrightarrow> deep_inhale_trigger r"
  by (auto simp: deep_inhale_trigger_def py_int_pos)

lemma ability_stamina_deep_inhale:
  assumes "ability r = ''deep_inhale''"
  shows "ability_stamina dt r =
           stamina r + (if deep_inhale_trigger r then stamina_regen r * 3.0 * dt else 0)"
  using assms deep_inhale_condition[of r]
  by (simp add: ability_stamina_def Let_def)

subsection \<open>A top speed that is not positive\<close>

lemma personality_target_nonpos:
  assumes "top_speed r \<le> 0"
  shows "personality_target r rp \<le> 0"
  using assms by (auto simp: personality_target_def Let_def min_def mult_le_0_iff)

lemma ability_target_nonpos:
  assumes "top_speed r \<le> 0" "0 \<le> burst_multiplier r" "ts \<le> 0"
  shows "ability_target gt rp st r ts \<le> 0"
  using assms by (auto simp: ability_target_def Let_def min_def mult_le_0_iff)

lemma personality_target_zero:
  assumes "top_speed r = 0"
  shows "personality_target r rp = 0"
  using assms by (simp add: personality_target_def Let_def)

lemma ability_target_zero:
  assumes "top_speed r = 0"
  shows "ability_target gt rp st r 0 = 0"
  using assms by (simp add: ability_target_def Let_def)

lemma effective_target_zero:
  assumes "top_speed r \<le> 0" "ts * (1 - (1 - stf) * fatigue_factor r) \<le> 0"
    "ts * (1 - (1 - stf) * fatigue_factor r * 0.4) \<le> 0"
  shows "effective_target r ts stf = 0"
proof -
  define a where "a = ts * (1 - (1 - stf) * fatigue_factor r)"
  define b where "b = ts * (1 - (1 - stf) * fatigue_factor r * 0.4)"
  define m where "m = 0.9 * 0.85 * top_speed r"
  have m: "m \<le> 0" unfolding m_def using assms(1) by simp
  have ab: "a \<le> 0" "b \<le> 0" unfolding a_def b_def using assms(2,3) by simp_all
  have "effective_target r ts stf =
      (if ability r = ''structural_stability''
       then max m (max 0 (if ability r = ''fatigue_shield'' then b else a))
       else max 0 (if ability r = ''fatigue_shield'' then b else a))"
    by (simp add: effective_target_def Let_def a_def b_def m_def)
  also have "\<dots> = 0" using m ab by (simp add: max_def)
  finally show ?thesis .
qed

lemma approach_speed_zero:
  assumes "0 \<le> acceleration r" "0 \<le> dt" "speed r = 0"
  shows "approach_speed dt r 0 = 0"
proof -
  have "0 \<le> acceleration r * 1.3 * dt" using assms(1,2) by (simp add: zero_le_mult_iff)
  thus ?thesis using assms(3) by (simp add: approach_speed_def Let_def max_def)
qed

lemma stamina_ratio_le_1: "(if stamina_max r > 0 then stamina_after dt r / stamina_max r else 0) \<le> 1"
  by (simp add: stamina_after_def stamina_mechanics_def Let_def)

lemma stamina_ratio_ge_0: "0 \<le> (if stamina_max r > 0 then stamina_after dt r / stamina_max r else 0)"
  by (simp add: stamina_after_def stamina_mechanics_def Let_def)

lemma speed_after_zero:
  assumes "top_speed r \<le> 0" "0 \<le> acceleration r" "0 \<le> dt" "speed r = 0"
    "top_speed r = 0 \<or> (0 \<le> burst_multiplier r \<and> 0 \<le> fatigue_factor r \<and> fatigue_factor r \<le> 1)"
  shows "speed_after dt gt rp r = 0"
proof -
  let ?ts = "ability_target gt rp (ability_stamina dt r) r (personality_target r rp)"
  let ?stf = "if stamina_max r > 0 then stamina_after dt r / stamina_max r else 0"
  have eff: "effective_target r ?ts ?stf = 0"
  proof (cases "top_speed r = 0")
    case True
    hence "?ts = 0" by (simp add: personality_target_zero ability_target_zero)
    thus ?thesis using assms(1) by (intro effective_target_zero) simp_all
  next
    case False
    with assms(5) have p: "0 \<le> burst_multiplier r" "0 \<le> fatigue_factor r" "fatigue_factor r \<le> 1"
      by simp_all
    have ts: "?ts \<le> 0"
      using assms(1) p(1) personality_target_nonpos[OF assms(1)] by (rule ability_target_nonpos)
    have s1: "?stf \<le> 1" by (rule stamina_ratio_le_1)
    have s0: "0 \<le> ?stf" by (rule stamina_ratio_ge_0)
    have pen0: "0 \<le> (1 - ?stf) * fatigue_factor r" using s1 p(2) by simp
    have "(1 - ?stf) * fatigue_factor r \<le> 1 * 1"
      using s0 s1 p(2,3) by (intro mult_mono) simp_all
    hence pen1: "(1 - ?stf) * fatigue_factor r \<le> 1" by simp
    have a: "?ts * (1 - (1 - ?stf) * fatigue_factor r) \<le> 0"
      using ts pen1 by (simp add: mult_le_0_iff)
    have "(1 - ?stf) * fatigue_factor r * 0.4 \<le> 1" using pen0 pen1 by simp
    hence b: "?ts * (1 - (1 - ?stf) * fatigue_factor r * 0.4) \<le> 0"
      using ts by (simp add: mult_le_0_iff)
    show ?thesis using assms(1) a b by (rule effective_target_zero)
  qed
  show ?thesis unfolding speed_after_def eff using assms(2,3,4) by (rule approach_speed_zero)
qed

lemma speed_fraction_nonpos_top: "top_speed r \<le> 0 \<Longrightarrow> speed_fraction r = Inr 0"
  by (simp add: speed_fraction_def)

lemma update_speed_zero:
  assumes "update rd dt gt rp r = Inr r'" "speed r = 0"
    "top_speed r \<le> 0" "0 \<le> acceleration r" "0 \<le> dt"
    "top_speed r = 0 \<or> (0 \<le> burst_multiplier r \<and> 0 \<le> fatigue_factor r \<and> fatigue_factor r \<le> 1)"
  shows "speed r' = 0"
proof (cases "finished r")
  case True
  with assms(1,2) show ?thesis by (simp add: update_finished)
next
  case False
  have "speed_after dt gt rp r = 0" using assms(3,4,5,2,6) by (rule speed_after_zero)
  with False assms(1) show ?thesis by (auto simp: update_unfinished split: if_splits)
qed

lemma updates_speed_zero:
  assumes "updates rd calls r = Inr r'" "speed r = 0"
    "top_speed r \<le> 0" "0 \<le> acceleration r" "\<forall>c \<in> set calls. 0 < fst c"
    "top_speed r = 0 \<or> (0 \<le> burst_multiplier r \<and> 0 \<le> fatigue_factor r \<and> fatigue_factor r \<le> 1)"
  shows "speed r' = 0"
  using assms
proof (induction calls arbitrary: r)
  case Nil
  then show ?case by simp
next
  case (Cons c calls)
  obtain dt gt rp where c: "c = (dt, gt, rp)" by (cases c)
  obtain r1 where r1: "update rd dt gt rp r = Inr r1" using update_total by blast
  have dt: "0 \<le> dt" using Cons.prems(5) c by simp
  have s1: "speed r1 = 0"
    using r1 Cons.prems(2,3,4) dt Cons.prems(6) by (rule update_speed_zero)
  have ss: "same_static r r1" using r1 by (rule update_same_static)
  have u: "updates rd calls r1 = Inr r'" using Cons.prems(1) c r1 by simp
  have t1: "top_speed r1 \<le> 0" and a1: "0 \<le> acceleration r1"
    and p1: "top_speed r1 = 0 \<or>
      (0 \<le> burst_multiplier r1 \<and> 0 \<le> fatigue_factor r1 \<and> fatigue_factor r1 \<le> 1)"
    using Cons.prems(3,4,6) ss by (simp_all add: same_static_def)
  have c1: "\<forall>c \<in> set calls. 0 < fst c" using Cons.prems(5) by simp
  show ?case using u s1 t1 a1 c1 p1 by (rule Cons.IH)
qed

lemma updates_total: "\<exists>r'. updates rd calls r = Inr r'"
proof (induction calls arbitrary: r)
  case Nil
  then show ?case by simp
next
  case (Cons c calls)
  obtain dt gt rp where c: "c = (dt, gt, rp)" by (cases c)
  obtain r1 where r1: "update rd dt gt rp r = Inr r1" using update_total by blast
  from Cons.IH[of r1] r1 c show ?case by simp
qed

subsection \<open>The race loop\<close>

lemma update_all_rel:
  "update_all rd dt gt rp rs = Inr rs' \<Longrightarrow>
   list_all2 (\<lambda>r r'. update rd dt gt rp r = Inr r') rs rs'"
proof (induction rs arbitrary: rs')
  case Nil
  then show ?case by simp
next
  case (Cons r rs)
  then show ?case by (auto split: sum.splits)
qed

lemma update_all_total: "\<exists>rs'. update_all rd dt gt rp rs = Inr rs'"
proof (induction rs)
  case Nil
  then show ?case by simp
next
  case (Cons r rs)
  obtain r' where "update rd dt gt rp r = Inr r'" using update_total by blast
  with Cons show ?case by auto
qed

lemma race_progress_total:
  assumes "rs \<noteq> []"
  shows "\<exists>rp. race_progress_of rd rs = Inr rp"
  using assms by (simp add: race_progress_of_def py_div_def)

lemma race_progress_nonpos_distance:
  assumes "rs \<noteq> []" "rd \<le> 0"
  shows "race_progress_of rd rs = Inr 0"
  using assms by (simp add: race_progress_of_def py_div_def)

lemma race_tick_Inr:
  assumes "race_tick dt rd t fs rs = Inr (t', fs', rs')"
  shows "\<exists>rp. race_progress_of rd rs = Inr rp \<and> update_all rd dt t rp rs = Inr rs' \<and>
              t' = t + dt \<and>
              fs' = fs @ [\<lparr>time = t, positions = map position rs',
                            staminas = map stamina rs', speeds = map speed rs'\<rparr>]"
  using assms by (auto simp: race_tick_def split: sum.splits)

lemma race_tick_total:
  assumes "rs \<noteq> []"
  shows "\<exists>t' fs' rs'. race_tick dt rd t fs rs = Inr (t', fs', rs')"
proof -
  obtain rp where rp: "race_progress_of rd rs = Inr rp"
    using race_progress_total[OF assms] by blast
  obtain rs' where "update_all rd dt t rp rs = Inr rs'" using update_all_total by blast
  with rp show ?thesis by (simp add: race_tick_def)
qed

lemma unfinished_nonempty: "\<not> list_all finished rs \<Longrightarrow> rs \<noteq> []"
  by auto

lemma race_tick_rel:
  assumes "race_tick dt rd t fs rs = Inr (t', fs', rs')"
  shows "\<exists>rp. list_all2 (\<lambda>r r'. update rd dt t rp r = Inr r') rs rs'"
  using race_tick_Inr[OF assms] update_all_rel by blast

lemma race_loop_rule:
  assumes loop: "race_loop dt rd mt t fs rs = Some res"
    and init: "I t fs rs"
    and step: "\<And>t fs rs t' fs' rs'. I t fs rs \<Longrightarrow> t < mt \<Longrightarrow> \<not> list_all finished rs \<Longrightarrow>
           race_tick dt rd t fs rs = Inr (t', fs', rs') \<Longrightarrow> I t' fs' rs'"
  shows "\<exists>t' fs' rs'. res = Inr (t', fs', rs') \<and> I t' fs' rs' \<and>
           \<not> (t' < mt \<and> \<not> list_all finished rs')"
proof -
  define P where "P = (\<lambda>dt' rd' mt' t fs rs
     (res :: error + real \<times> frame list \<times> BodySystemRunner list).
     dt' = dt \<and> rd' = rd \<and> mt' = mt \<and> I t fs rs \<longrightarrow>
     (\<exists>t' fs' rs'. res = Inr (t', fs', rs') \<and> I t' fs' rs' \<and>
           \<not> (t' < mt \<and> \<not> list_all finished rs')))"
  have "P dt rd mt t fs rs res"
  proof (rule race_loop.raw_induct[where P = P, OF _ loop])
    fix f dt' rd' mt' t fs rs res
    assume IH: "\<And>a b c d e g y. f a b c d e g = Some y \<Longrightarrow> P a b c d e g y"
      and body: "(if t < mt' \<and> \<not> list_all finished rs
        then case race_tick dt' rd' t fs rs of Inl e \<Rightarrow> Some (Inl e)
             | Inr (t', frames', runners') \<Rightarrow> f dt' rd' mt' t' frames' runners'
        else Some (Inr (t, fs, rs))) = Some res"
    show "P dt' rd' mt' t fs rs res"
      unfolding P_def
    proof (intro impI, elim conjE)
      assume eq: "dt' = dt" "rd' = rd" "mt' = mt" and I: "I t fs rs"
      show "\<exists>t' fs' rs'. res = Inr (t', fs', rs') \<and> I t' fs' rs' \<and>
           \<not> (t' < mt \<and> \<not> list_all finished rs')"
      proof (cases "t < mt \<and> \<not> list_all finished rs")
        case False
        with body eq have "res = Inr (t, fs, rs)" by auto
        with I False show ?thesis by simp
      next
        case True
        hence "rs \<noteq> []" by auto
        then obtain t' fs' rs' where tick: "race_tick dt rd t fs rs = Inr (t', fs', rs')"
          using race_tick_total by blast
        with True body eq have "f dt rd mt t' fs' rs' = Some res" by simp
        from IH[OF this] have ih: "P dt rd mt t' fs' rs' res" .
        have "I t' fs' rs'" using step[of t fs rs t' fs' rs'] I True tick by simp
        with ih show ?thesis unfolding P_def by simp
      qed
    qed
  qed
  with init show ?thesis unfolding P_def by simp
qed

lemma race_loop_terminates:
  assumes "0 < dt"
  shows "\<exists>res. race_loop dt rd mt t fs rs = Some res"
proof (induction "nat \<lceil>(mt - t) / dt\<rceil>" arbitrary: t fs rs rule: less_induct)
  case less
  show ?case
  proof (cases "t < mt \<and> \<not> list_all finished rs")
    case False
    thus ?thesis by (subst race_loop.simps) auto
  next
    case True
    hence "rs \<noteq> []" by auto
    then obtain t' fs' rs' where tick: "race_tick dt rd t fs rs = Inr (t', fs', rs')"
      using race_tick_total by blast
    have t': "t' = t + dt" using race_tick_Inr[OF tick] by blast
    have pos: "0 < (mt - t) / dt" using True assms by simp
    have "(mt - t') / dt = (mt - t) / dt - 1"
      using assms t' by (simp add: field_simps)
    hence "\<lceil>(mt - t') / dt\<rceil> = \<lceil>(mt - t) / dt\<rceil> - 1" by simp
    moreover have "0 < \<lceil>(mt - t) / dt\<rceil>" using pos by simp
    ultimately have "nat \<lceil>(mt - t') / dt\<rceil> < nat \<lceil>(mt - t) / dt\<rceil>" by simp
    from less[OF this] obtain res where "race_loop dt rd mt t' fs' rs' = Some res" by blast
    with True tick show ?thesis by (subst race_loop.simps) simp
  qed
qed

subsection \<open>Finish times\<close>

lemma initial_state_consistent: "initial_state r \<Longrightarrow> consistent r"
  by (simp add: initial_state_def consistent_def)

lemma update_finish_time:
  assumes "update rd dt gt rp r = Inr r'"
  shows "(finished r' = finished r \<and> finish_time r' = finish_time r) \<or>
         (\<not> finished r \<and> finished r' \<and> finish_time r' = Some gt)"
  using assms
  by (cases "finished r") (auto simp: update_finished update_unfinished split: if_splits)

lemma update_consistent:
  assumes "update rd dt gt rp r = Inr r'" "consistent r"
  shows "consistent r'"
  using update_finish_time[OF assms(1)] assms(2) by (auto simp: consistent_def)

lemma list_all2_preserves:
  assumes "list_all2 R xs ys" "list_all Q xs" "\<And>x y. R x y \<Longrightarrow> Q x \<Longrightarrow> Q' y"
  shows "list_all Q' ys"
  using assms(1,2)
proof (induction rule: list_all2_induct)
  case Nil
  then show ?case by simp
next
  case (Cons x xs y ys)
  then show ?case using assms(3) by simp
qed

lemma race_tick_preserves:
  assumes "race_tick dt rd t fs rs = Inr (t', fs', rs')" "list_all Q rs"
    and "\<And>rp r r'. update rd dt t rp r = Inr r' \<Longrightarrow> Q r \<Longrightarrow> Q' r'"
  shows "list_all Q' rs'"
proof -
  obtain rp where "list_all2 (\<lambda>r r'. update rd dt t rp r = Inr r') rs rs'"
    using race_tick_rel[OF assms(1)] by blast
  thus ?thesis using assms(2,3) by (rule list_all2_preserves)
qed

lemma race_tick_length:
  assumes "race_tick dt rd t fs rs = Inr (t', fs', rs')"
  shows "length rs' = length rs" "length fs' = Suc (length fs)" "t' = t + dt"
proof -
  obtain rp where "list_all2 (\<lambda>r r'. update rd dt t rp r = Inr r') rs rs'"
    using race_tick_rel[OF assms(1)] by blast
  thus "length rs' = length rs" by (simp add: list_all2_lengthD)
  show "length fs' = Suc (length fs)" "t' = t + dt"
    using race_tick_Inr[OF assms] by auto
qed

lemma initial_state_timed: "initial_state r \<Longrightarrow> timed mt r"
  by (simp add: initial_state_def consistent_def timed_def)

lemma update_timed:
  assumes "update rd dt gt rp r = Inr r'" "timed mt r" "0 \<le> gt" "gt < mt"
  shows "timed mt r'"
  using update_finish_time[OF assms(1)] assms(2-4)
  by (auto simp: timed_def consistent_def split: option.splits)

lemma race_loop_timed:
  assumes "race_loop dt rd mt t fs rs = Some res" "0 \<le> dt" "0 \<le> t" "list_all (timed mt) rs"
  shows "\<exists>t' fs' rs'. res = Inr (t', fs', rs') \<and> list_all (timed mt) rs' \<and>
           \<not> (t' < mt \<and> \<not> list_all finished rs')"
proof -
  have "\<exists>t' fs' rs'. res = Inr (t', fs', rs') \<and> (0 \<le> t' \<and> list_all (timed mt) rs') \<and>
           \<not> (t' < mt \<and> \<not> list_all finished rs')"
  proof (rule race_loop_rule[OF assms(1), where I = "\<lambda>t fs rs. 0 \<le> t \<and> list_all (timed mt) rs"])
    show "0 \<le> t \<and> list_all (timed mt) rs" using assms(3,4) by simp
  next
    fix t fs rs t' fs' rs'
    assume I: "0 \<le> t \<and> list_all (timed mt) rs" and lt: "t < mt"
      and tick: "race_tick dt rd t fs rs = Inr (t', fs', rs')"
    have "list_all (timed mt) rs'"
      using tick I update_timed[where gt = t and mt = mt] lt
      by (intro race_tick_preserves[OF tick, where Q = "timed mt"]) auto
    moreover have "0 \<le> t'" using race_tick_length(3)[OF tick] I assms(2) by simp
    ultimately show "0 \<le> t' \<and> list_all (timed mt) rs'" by simp
  qed
  thus ?thesis by blast
qed

subsection \<open>The states the loop goes through\<close>

lemma ticks_snoc:
  "ticks n dt rd t0 fs0 rs0 = Inr (t, fs, rs) \<Longrightarrow>
   ticks (Suc n) dt rd t0 fs0 rs0 = race_tick dt rd t fs rs"
proof (induction n arbitrary: t0 fs0 rs0)
  case 0
  then show ?case by (auto split: sum.splits)
next
  case (Suc n)
  from Suc.prems obtain t1 fs1 rs1 where
    tick: "race_tick dt rd t0 fs0 rs0 = Inr (t1, fs1, rs1)"
    and rest: "ticks n dt rd t1 fs1 rs1 = Inr (t, fs, rs)"
    by (auto split: sum.splits)
  from Suc.IH[OF rest] tick show ?case by simp
qed

lemma ticks_add:
  "ticks (n + m) dt rd t fs rs =
     (case ticks n dt rd t fs rs of
        Inl e \<Rightarrow> Inl e
      | Inr (t', fs', rs') \<Rightarrow> ticks m dt rd t' fs' rs')"
proof (induction n arbitrary: t fs rs)
  case 0
  then show ?case by simp
next
  case (Suc n)
  then show ?case by (auto split: sum.splits)
qed

lemma ticks_shape:
  "ticks n dt rd t0 fs0 rs0 = Inr (t, fs, rs) \<Longrightarrow>
   t = t0 + dt * real n \<and> length fs = length fs0 + n \<and> length rs = length rs0"
proof (induction n arbitrary: t0 fs0 rs0)
  case 0
  then show ?case by simp
next
  case (Suc n)
  from Suc.prems obtain t1 fs1 rs1 where
    tick: "race_tick dt rd t0 fs0 rs0 = Inr (t1, fs1, rs1)"
    and rest: "ticks n dt rd t1 fs1 rs1 = Inr (t, fs, rs)"
    by (auto split: sum.splits)
  from Suc.IH[OF rest] race_tick_length[OF tick] show ?case
    by (simp add: algebra_simps)
qed

lemma update_keeps_finished:
  "update rd dt gt rp r = Inr r' \<Longrightarrow> finished r \<longrightarrow> r' = r"
  by (auto simp: update_finished)

lemma ticks_keep_finished:
  "ticks n dt rd t0 fs0 rs0 = Inr (t, fs, rs) \<Longrightarrow>
   list_all2 (\<lambda>r r'. finished r \<longrightarrow> r' = r) rs0 rs"
proof (induction n arbitrary: t0 fs0 rs0)
  case 0
  then show ?case by (simp add: list_all2_same)
next
  case (Suc n)
  from Suc.prems obtain t1 fs1 rs1 where
    tick: "race_tick dt rd t0 fs0 rs0 = Inr (t1, fs1, rs1)"
    and rest: "ticks n dt rd t1 fs1 rs1 = Inr (t, fs, rs)"
    by (auto split: sum.splits)
  obtain rp where "list_all2 (\<lambda>r r'. update rd dt t0 rp r = Inr r') rs0 rs1"
    using race_tick_rel[OF tick] by blast
  hence a: "list_all2 (\<lambda>r r'. finished r \<longrightarrow> r' = r) rs0 rs1"
    by (rule list_all2_mono) (simp add: update_keeps_finished)
  have b: "list_all2 (\<lambda>r r'. finished r \<longrightarrow> r' = r) rs1 rs" using rest by (rule Suc.IH)
  show ?case
    using a b
    by (rule list_all2_trans[rotated]) auto
qed

lemma race_loop_ticks:
  assumes "race_loop dt rd mt t0 fs0 rs0 = Some res"
  shows "\<exists>n s. res = Inr s \<and> ticks n dt rd t0 fs0 rs0 = Inr s \<and> \<not> running mt s \<and>
           (\<forall>k<n. \<exists>sk. ticks k dt rd t0 fs0 rs0 = Inr sk \<and> running mt sk)"
proof -
  let ?I = "\<lambda>t fs rs. \<exists>n. ticks n dt rd t0 fs0 rs0 = Inr (t, fs, rs) \<and>
           (\<forall>k<n. \<exists>sk. ticks k dt rd t0 fs0 rs0 = Inr sk \<and> running mt sk)"
  have "\<exists>t' fs' rs'. res = Inr (t', fs', rs') \<and> ?I t' fs' rs' \<and>
           \<not> (t' < mt \<and> \<not> list_all finished rs')"
  proof (rule race_loop_rule[OF assms, where I = ?I])
    have "ticks 0 dt rd t0 fs0 rs0 = Inr (t0, fs0, rs0)" by simp
    thus "?I t0 fs0 rs0" by (intro exI[of _ 0]) simp
  next
    fix t fs rs t' fs' rs'
    assume I: "?I t fs rs" and run: "t < mt" "\<not> list_all finished rs"
      and tick: "race_tick dt rd t fs rs = Inr (t', fs', rs')"
    from I obtain n where n: "ticks n dt rd t0 fs0 rs0 = Inr (t, fs, rs)"
      and before: "\<forall>k<n. \<exists>sk. ticks k dt rd t0 fs0 rs0 = Inr sk \<and> running mt sk"
      by blast
    have next_state: "ticks (Suc n) dt rd t0 fs0 rs0 = Inr (t', fs', rs')"
      using ticks_snoc[OF n] tick by simp
    have "\<exists>sk. ticks k dt rd t0 fs0 rs0 = Inr sk \<and> running mt sk" if "k < Suc n" for k
    proof (cases "k = n")
      case True
      with n run show ?thesis by (simp add: running_def)
    next
      case False
      with that before show ?thesis by simp
    qed
    with next_state show "?I t' fs' rs'" by blast
  qed
  thus ?thesis by (auto simp: running_def)
qed

lemma ticks_bound:
  assumes "0 < dt" "ticks k dt rd t0 fs0 rs0 = Inr sk" "running mt sk"
  shows "Suc k \<le> nat \<lceil>(mt - t0) / dt\<rceil>"
proof -
  obtain t fs rs where sk: "sk = (t, fs, rs)" by (cases sk)
  have t: "t = t0 + dt * real k" using ticks_shape[of k dt rd t0 fs0 rs0 t fs rs] assms(2) sk by simp
  have "t < mt" using assms(3) sk by (simp add: running_def)
  hence "dt * real k < mt - t0" using t by simp
  hence "real k < (mt - t0) / dt" using assms(1) by (simp add: field_simps)
  hence "int k < \<lceil>(mt - t0) / dt\<rceil>" by (simp add: less_ceiling_iff)
  thus ?thesis by simp
qed

lemma list_all2_pull_back:
  assumes "list_all2 R xs ys" "list_all Q ys" "list_all T xs"
    "\<And>x y. R x y \<Longrightarrow> Q y \<Longrightarrow> T x \<Longrightarrow> Q' x"
  shows "list_all Q' xs"
  using assms(1,2,3)
proof (induction rule: list_all2_induct)
  case Nil
  then show ?case by simp
next
  case (Cons x xs y ys)
  then show ?case using assms(4) by simp
qed

lemma timed_not_before:
  assumes "finished r \<longrightarrow> r' = r" "not_before mt r'" "timed mt r"
  shows "finish_time r = None"
proof (cases "finish_time r")
  case None
  then show ?thesis .
next
  case (Some ft)
  with assms(3) have "finished r" "ft < mt" by (simp_all add: timed_def consistent_def)
  with assms(1,2) Some show ?thesis by (simp add: not_before_def)
qed

lemma race_loop_runs:
  assumes "0 < dt"
  shows "\<exists>n t fs rs.
      race_loop dt rd mt 0 [] roster = Some (Inr (t, fs, rs)) \<and>
      ticks n dt rd 0 [] roster = Inr (t, fs, rs) \<and>
      length fs = n \<and> t = dt * real n \<and> length rs = length roster \<and>
      n \<le> nat \<lceil>mt / dt\<rceil> \<and>
      \<not> running mt (t, fs, rs) \<and>
      (\<forall>k<n. \<exists>sk. ticks k dt rd 0 [] roster = Inr sk \<and> running mt sk)"
proof -
  obtain res where res: "race_loop dt rd mt 0 [] roster = Some res"
    using race_loop_terminates[OF assms] by blast
  from race_loop_ticks[OF res] obtain n s where s: "res = Inr s"
    and n: "ticks n dt rd 0 [] roster = Inr s" and stop: "\<not> running mt s"
    and before: "\<forall>k<n. \<exists>sk. ticks k dt rd 0 [] roster = Inr sk \<and> running mt sk"
    by blast
  obtain t fs rs where st: "s = (t, fs, rs)" by (cases s)
  have shape: "t = dt * real n" "length fs = n" "length rs = length roster"
    using ticks_shape[of n dt rd 0 "[]" roster t fs rs] n st by simp_all
  have bound: "n \<le> nat \<lceil>mt / dt\<rceil>"
  proof (cases n)
    case 0
    then show ?thesis by simp
  next
    case (Suc k)
    with before obtain sk where "ticks k dt rd 0 [] roster = Inr sk" "running mt sk" by blast
    from ticks_bound[OF assms this] Suc show ?thesis by simp
  qed
  show ?thesis
    using res s st n shape bound stop before by blast
qed

lemma race_loop_cap_below_finish:
  assumes dt: "0 < dt" and init: "list_all initial_state roster" and ne: "roster \<noteq> []"
    and mt: "0 \<le> mt" "mt \<le> mt'"
    and run: "race_loop dt rd mt 0 [] roster = Some (Inr (t, fs, rs))"
    and natural: "race_loop dt rd mt' 0 [] roster = Some (Inr (t2, fs2, rs2))"
      "list_all (not_before mt) rs2"
  shows "list_all (\<lambda>r. finish_time r = None) rs \<and> mt \<le> t \<and> t < mt + dt"
proof -
  from race_loop_ticks[OF run] obtain n where
    n: "ticks n dt rd 0 [] roster = Inr (t, fs, rs)" and stop: "\<not> running mt (t, fs, rs)"
    and before: "\<forall>k<n. \<exists>sk. ticks k dt rd 0 [] roster = Inr sk \<and> running mt sk"
    by blast
  from race_loop_ticks[OF natural(1)] obtain n2 where
    n2: "ticks n2 dt rd 0 [] roster = Inr (t2, fs2, rs2)"
    and stop2: "\<not> running mt' (t2, fs2, rs2)"
    by blast
  have le: "n \<le> n2"
  proof (rule ccontr)
    assume "\<not> n \<le> n2"
    hence "n2 < n" by simp
    with before n2 have "running mt (t2, fs2, rs2)" by auto
    hence "running mt' (t2, fs2, rs2)" using mt(2) by (simp add: running_def)
    with stop2 show False by simp
  qed
  then obtain m where m: "n2 = n + m" using le_Suc_ex by blast
  have "ticks m dt rd t fs rs = Inr (t2, fs2, rs2)"
    using n2 n ticks_add[of n m dt rd 0 "[]" roster] m by simp
  hence keep: "list_all2 (\<lambda>r r'. finished r \<longrightarrow> r' = r) rs rs2"
    by (rule ticks_keep_finished)
  have "list_all (timed mt) roster"
    using init by (rule list.pred_mono_strong) (simp add: initial_state_timed)
  with race_loop_timed[OF run, of ] dt have timed: "list_all (timed mt) rs" by simp
  have dnf: "list_all (\<lambda>r. finish_time r = None) rs"
    using keep natural(2) timed by (rule list_all2_pull_back) (rule timed_not_before)
  have "list_all (\<lambda>r. \<not> finished r) rs"
    using timed dnf
    by (induction rs) (auto simp: timed_def consistent_def)
  moreover have "rs \<noteq> []"
    using ticks_shape[OF n] ne by auto
  ultimately have "\<not> list_all finished rs" by (cases rs) auto
  with stop have ge: "mt \<le> t" by (simp add: running_def)
  have t: "t = dt * real n" using ticks_shape[OF n] by simp
  have lt: "t < mt + dt"
  proof (cases n)
    case 0
    with t ge mt(1) dt show ?thesis by simp
  next
    case (Suc k)
    with before obtain sk where sk: "ticks k dt rd 0 [] roster = Inr sk" "running mt sk" by blast
    obtain tk fk rk where "sk = (tk, fk, rk)" by (cases sk)
    with sk ticks_shape[of k dt rd 0 "[]" roster tk fk rk] have "dt * real k < mt"
      by (simp add: running_def)
    with t Suc show ?thesis by (simp add: algebra_simps)
  qed
  from dnf ge lt show ?thesis by simp
qed

subsection \<open>The ranking\<close>

lemma ordered_length: "length (ordered rs) = length rs"
  by (simp add: ordered_def)

lemma ordered_set: "set (ordered rs) = set rs"
  by (simp add: ordered_def)

lemma ordered_sorted:
  assumes "i \<le> j" "j < length rs"
  shows "sort_key_runner (ordered rs ! i) \<le> sort_key_runner (ordered rs ! j)"
proof -
  have "sorted (map sort_key_runner (ordered rs))" by (simp add: ordered_def)
  from sorted_nth_mono[OF this, of i j] assms show ?thesis
    by (simp add: ordered_length)
qed

lemma ordered_stable:
  "filter (\<lambda>r. finish_time r = x) (ordered rs) = filter (\<lambda>r. finish_time r = x) rs"
proof -
  define k where "k = (case x of None \<Rightarrow> 1000000000 | Some ft \<Rightarrow> ft)"
  have imp: "finish_time r = x \<longleftrightarrow> sort_key_runner r = k \<and> finish_time r = x" for r
    by (auto simp: k_def sort_key_runner_def)
  have "filter (\<lambda>r. finish_time r = x) ys =
        filter (\<lambda>r. finish_time r = x) (filter (\<lambda>r. sort_key_runner r = k) ys)" for ys
    using imp by (simp add: conj_commute)
  thus ?thesis by (metis ordered_def sort_key_stable)
qed

lemma sort_key_finished:
  "finish_time r = Some ft \<Longrightarrow> sort_key_runner r = ft"
  by (simp add: sort_key_runner_def)

lemma sort_key_unfinished:
  "finish_time r = None \<Longrightarrow> sort_key_runner r = 1000000000"
  by (simp add: sort_key_runner_def)

lemma ordered_below_sentinel:
  assumes "list_all below_sentinel rs" "i < length rs"
  shows "below_sentinel (ordered rs ! i)"
proof -
  have "ordered rs ! i \<in> set rs"
    using assms(2) ordered_set[of rs] ordered_length[of rs] nth_mem[of i "ordered rs"] by simp
  with assms(1) show ?thesis by (simp add: list_all_iff)
qed

lemma ordered_finished_by_time:
  assumes "i < length rs" "j < length rs"
    "finish_time (ordered rs ! i) = Some a" "finish_time (ordered rs ! j) = Some b"
  shows "(a < b \<longrightarrow> i < j) \<and> (i < j \<longrightarrow> a \<le> b)"
proof (intro conjI impI)
  assume "a < b"
  show "i < j"
  proof (rule ccontr)
    assume "\<not> i < j"
    hence "j \<le> i" by simp
    from ordered_sorted[OF this assms(1)] assms(3,4) have "b \<le> a"
      by (simp add: sort_key_finished)
    with \<open>a < b\<close> show False by simp
  qed
next
  assume "i < j"
  hence "i \<le> j" by simp
  from ordered_sorted[OF this assms(2)] assms(3,4) show "a \<le> b"
    by (simp add: sort_key_finished)
qed

lemma ordered_unfinished_last:
  assumes "list_all below_sentinel rs" "i < length rs" "j < length rs"
    "finish_time (ordered rs ! i) \<noteq> None" "finish_time (ordered rs ! j) = None"
  shows "i < j"
proof (rule ccontr)
  assume "\<not> i < j"
  hence ji: "j \<le> i" by simp
  from assms(4) obtain a where a: "finish_time (ordered rs ! i) = Some a" by auto
  have "a < 1000000000"
    using ordered_below_sentinel[OF assms(1,2)] a by (simp add: below_sentinel_def)
  moreover from ordered_sorted[OF ji assms(2)] a assms(5) have "1000000000 \<le> a"
    by (simp add: sort_key_finished sort_key_unfinished)
  ultimately show False by simp
qed

lemma timed_below_sentinel:
  assumes "timed mt r" "mt \<le> 1000000000"
  shows "below_sentinel r"
  using assms by (auto simp: timed_def below_sentinel_def split: option.splits)

subsection \<open>What the loop returns\<close>

lemma run_race_eq:
  "race_loop dt rd mt 0 [] roster = Some (Inr (t, fs, rs)) \<Longrightarrow>
   run_race roster dt rd mt = Some (Inr (fs, rs))"
  by (simp add: run_race_def)

lemma race_loop_never_raises:
  "race_loop dt rd mt t fs rs \<noteq> Some (Inl e)"
proof
  assume "race_loop dt rd mt t fs rs = Some (Inl e)"
  from race_loop_rule[OF this, where I = "\<lambda>_ _ _. True"] show False by simp
qed

lemma race_loop_returns:
  assumes "0 < dt"
  shows "\<exists>s. race_loop dt rd mt t fs rs = Some (Inr s)"
proof -
  obtain res where res: "race_loop dt rd mt t fs rs = Some res"
    using race_loop_terminates[OF assms] by blast
  from race_loop_rule[OF this, where I = "\<lambda>_ _ _. True"] res show ?thesis by auto
qed

lemma race_result_timed:
  assumes "list_all initial_state roster" "0 < dt"
  shows "\<exists>t fs rs. race_loop dt rd mt 0 [] roster = Some (Inr (t, fs, rs)) \<and>
           list_all (timed mt) rs \<and> length rs = length roster"
proof -
  obtain n t fs rs where run: "race_loop dt rd mt 0 [] roster = Some (Inr (t, fs, rs))"
    and len: "length rs = length roster"
    using race_loop_runs[OF assms(2), of rd mt roster] by blast
  have "list_all (timed mt) roster"
    using assms(1) by (rule list.pred_mono_strong) (simp add: initial_state_timed)
  with race_loop_timed[OF run] assms(2) have "list_all (timed mt) rs" by simp
  with run len show ?thesis by blast
qed

text \<open>With a time step of 0 nothing moves and the loop of a race that has begun never ends.\<close>

lemma zero_step_update:
  "update RACE_DISTANCE 0 t rp calm_runner = Inr calm_runner"
  by (simp add: calm_runner_def new_runner_def RACE_DISTANCE_def eval_update)

lemma zero_step_diverges:
  "race_loop 0 RACE_DISTANCE MAX_RACE_TIME 0 fs [calm_runner] = None"
proof (cases "race_loop 0 RACE_DISTANCE MAX_RACE_TIME 0 fs [calm_runner]")
  case None
  then show ?thesis .
next
  case (Some res)
  have "\<exists>t' fs' rs'. res = Inr (t', fs', rs') \<and> (t' = 0 \<and> rs' = [calm_runner]) \<and>
           \<not> (t' < MAX_RACE_TIME \<and> \<not> list_all finished rs')"
  proof (rule race_loop_rule[OF Some, where I = "\<lambda>t fs rs. t = 0 \<and> rs = [calm_runner]"])
    show "(0::real) = 0 \<and> [calm_runner] = [calm_runner]" by simp
  next
    fix t fs rs t' fs' rs'
    assume I: "t = 0 \<and> rs = [calm_runner]"
      and tick: "race_tick 0 RACE_DISTANCE t fs rs = Inr (t', fs', rs')"
    from race_tick_Inr[OF tick] I zero_step_update
    show "t' = 0 \<and> rs' = [calm_runner]" by auto
  qed
  hence False by (auto simp: MAX_RACE_TIME_def calm_runner_def new_runner_def)
  thus ?thesis ..
qed

subsection \<open>Small races, evaluated\<close>

text \<open>
  Sprints over 20 m with a time step of 1 s: the loop is unfolded tick by tick.
\<close>

lemmas eval_race =
  race_loop.simps race_tick_def race_progress_of_def py_div_def update_finished
  calm_runner_def calm_runner_done_def new_runner_def

lemma sprint_uncapped:
  "\<exists>t fs. race_loop 1 20 MAX_RACE_TIME 0 [] [calm_runner] = Some (Inr (t, fs, [calm_runner_done]))"
  by (simp add: eval_race eval_update MAX_RACE_TIME_def)

lemma sprint_tie:
  "\<exists>t fs. race_loop 1 20 MAX_RACE_TIME 0 [] [calm_runner, calm_rival] =
     Some (Inr (t, fs, [calm_runner_done, calm_rival_done]))"
  by (simp add: eval_race eval_update MAX_RACE_TIME_def calm_rival_def calm_rival_done_def)

lemma sprint_outsider:
  "\<exists>t fs. race_loop 1 20 4 0 [] [stalled_runner, calm_runner] =
     Some (Inr (t, fs, [stalled_runner, calm_runner_done]))"
  by (simp add: eval_race eval_update stalled_runner_def)

lemma degenerate_race:
  "\<exists>s. race_loop 1 0 MAX_RACE_TIME 0 [] [degenerate_runner] = Some (Inr s)"
  by (simp add: eval_race eval_update MAX_RACE_TIME_def degenerate_runner_def)

subsection \<open>The single-runner scenario\<close>

text \<open>
  The race of \<open>calm_runner\<close> with the module's constants, followed symbolically: with a
  fatigue factor of 0 the effective target is 8 whatever the stamina; the speed climbs
  by 0.5 per tick for 16 ticks (6.8 m), and then the runner covers 0.8 m per tick.
\<close>

lemma calm_speed_after:
  assumes "same_static calm_runner r"
  shows "speed_after (1 / 10) t rp r =
     (if speed r < 8 then (if speed r + 1 / 2 > 8 then 8 else max 0 (speed r + 1 / 2))
      else (if speed r - 13 / 20 < 8 then 8 else speed r - 13 / 20))"
proof -
  have st: "personality r = ''calm''" "ability r = ''none''" "top_speed r = 10"
    "acceleration r = 5" "fatigue_factor r = 0"
    using assms by (simp_all add: same_static_def calm_runner_def new_runner_def)
  have "personality_target r rp = 8" by (simp add: personality_target_def st)
  moreover have "ability_target t rp s r 8 = 8" for s by (simp add: ability_target_def st)
  moreover have "effective_target r 8 x = 8" for x by (simp add: effective_target_def st)
  ultimately have "speed_after (1 / 10) t rp r = approach_speed (1 / 10) r 8"
    by (simp add: speed_after_def)
  thus ?thesis by (simp add: approach_speed_def st Let_def)
qed

lemma calm_update_on:
  assumes "calm_state v p r" "0 \<le> v" "v \<le> 8"
    and "v' = (if v + 1 / 2 > 8 then 8 else v + 1 / 2)" "p + v' / 10 < 200"
  shows "\<exists>r'. update 200 (1 / 10) t rp r = Inr r' \<and> calm_state v' (p + v' / 10) r'"
proof -
  have ss: "same_static calm_runner r" and r: "speed r = v" "position r = p" "\<not> finished r"
    "finish_time r = None"
    using assms(1) by (simp_all add: calm_state_def)
  have sp: "speed_after (1 / 10) t rp r = v'"
    using calm_speed_after[OF ss, of t rp] r(1) assms(2-4) by auto
  show ?thesis
    using r sp assms(5) ss
    by (simp add: update_unfinished calm_state_def same_static_def)
qed

lemma calm_update_finish:
  assumes "calm_state 8 p r" "200 \<le> p + 8 / 10"
  shows "\<exists>r'. update 200 (1 / 10) t rp r = Inr r' \<and> finished r' \<and>
              finish_time r' = Some t \<and> position r' = 200"
proof -
  have ss: "same_static calm_runner r" and r: "speed r = 8" "position r = p" "\<not> finished r"
    using assms(1) by (simp_all add: calm_state_def)
  have sp: "speed_after (1 / 10) t rp r = 8"
    using calm_speed_after[OF ss, of t rp] r(1) by simp
  show ?thesis using r sp assms(2) by (simp add: update_unfinished)
qed

lemma single_tick:
  assumes "\<And>rp. \<exists>r'. update rd dt t rp r = Inr r' \<and> Q r'"
  shows "\<exists>fs' r'. race_tick dt rd t fs [r] = Inr (t + dt, fs', [r']) \<and>
           length fs' = Suc (length fs) \<and> Q r'"
proof -
  obtain rp where rp: "race_progress_of rd [r] = Inr rp"
    using race_progress_total[of "[r]" rd] by auto
  obtain r' where "update rd dt t rp r = Inr r'" "Q r'" using assms by blast
  with rp show ?thesis by (simp add: race_tick_def)
qed

lemma cruise:
  assumes "calm_state 8 (1996 / 10 - 8 / 10 * real k) r" "t = 257 / 10 - real k / 10"
  shows "\<exists>fs' r'. race_loop (1 / 10) 200 40 t fs [r] = Some (Inr (258 / 10, fs', [r'])) \<and>
           length fs' = length fs + k + 1 \<and> finished r' \<and> finish_time r' = Some (257 / 10)"
  using assms
proof (induction k arbitrary: r t fs)
  case 0
  have run: "t < 40" "\<not> list_all finished [r]" using 0 by (simp_all add: calm_state_def)
  have st: "calm_state 8 (1996 / 10) r" using 0(1) by simp
  have ge: "(200::real) \<le> 1996 / 10 + 8 / 10" by simp
  have "\<exists>r'. update 200 (1 / 10) t rp r = Inr r' \<and>
          (finished r' \<and> finish_time r' = Some t \<and> position r' = 200)" for rp
    using st ge by (rule calm_update_finish)
  from single_tick[of 200 "1 / 10" t r _ fs, OF this]
  obtain fs' r' where tick: "race_tick (1 / 10) 200 t fs [r] = Inr (t + 1 / 10, fs', [r'])"
    and r': "length fs' = Suc (length fs)" "finished r'" "finish_time r' = Some t"
    by blast
  have "race_loop (1 / 10) 200 40 (t + 1 / 10) fs' [r'] = Some (Inr (t + 1 / 10, fs', [r']))"
    using r'(2) by (subst race_loop.simps) simp
  hence "race_loop (1 / 10) 200 40 t fs [r] = Some (Inr (t + 1 / 10, fs', [r']))"
    using run tick by (subst race_loop.simps) simp
  with r' 0(2) show ?case by simp
next
  case (Suc k)
  have "257 / 10 - x / 10 < (40::real)" if "0 \<le> x" for x :: real
    using that by simp
  from this[of "real (Suc k)"] have "t < 40" using Suc.prems(2) by simp
  moreover have "\<not> list_all finished [r]" using Suc.prems(1) by (simp add: calm_state_def)
  ultimately have run: "t < 40" "\<not> list_all finished [r]" by simp_all
  have "1996 / 10 - 8 / 10 * x + 8 / 10 < (200::real)" if "1 \<le> x" for x :: real
    using that by simp
  from this[of "real (Suc k)"]
  have lt: "1996 / 10 - 8 / 10 * real (Suc k) + 8 / 10 < (200::real)" by simp
  have v: "(0::real) \<le> 8" "(8::real) \<le> 8" "(8::real) = (if (8::real) + 1 / 2 > 8 then 8 else 8 + 1 / 2)"
    by simp_all
  have "\<exists>r'. update 200 (1 / 10) t rp r = Inr r' \<and>
          calm_state 8 (1996 / 10 - 8 / 10 * real (Suc k) + 8 / 10) r'" for rp
    using Suc.prems(1) v lt by (rule calm_update_on)
  from single_tick[of 200 "1 / 10" t r _ fs, OF this]
  obtain fs1 r1 where tick: "race_tick (1 / 10) 200 t fs [r] = Inr (t + 1 / 10, fs1, [r1])"
    and r1: "length fs1 = Suc (length fs)"
      "calm_state 8 (1996 / 10 - 8 / 10 * real (Suc k) + 8 / 10) r1"
    by blast
  have eq: "1996 / 10 - 8 / 10 * real (Suc k) + 8 / 10 = 1996 / 10 - 8 / 10 * real k"
    by (simp add: algebra_simps)
  have st: "calm_state 8 (1996 / 10 - 8 / 10 * real k) r1"
    using r1(2) unfolding eq .
  have t1: "t + 1 / 10 = 257 / 10 - real k / 10" using Suc.prems(2) by (simp add: field_simps)
  from Suc.IH[OF st t1, of fs1]
  obtain fs' r' where res: "race_loop (1 / 10) 200 40 (t + 1 / 10) fs1 [r1] =
      Some (Inr (258 / 10, fs', [r']))"
    and r': "length fs' = length fs1 + k + 1" "finished r'" "finish_time r' = Some (257 / 10)"
    by blast
  have "race_loop (1 / 10) 200 40 t fs [r] = Some (Inr (258 / 10, fs', [r']))"
    using run tick res by (subst race_loop.simps) simp
  with r' r1(1) show ?case by simp
qed

lemma ramp:
  assumes "i + j = 16"
    and "calm_state (real i / 2) (real i * (real i + 1) / 40) r"
  shows "\<exists>fs' r'. race_loop (1 / 10) 200 40 (real i / 10) fs [r] =
             Some (Inr (258 / 10, fs', [r'])) \<and>
           length fs' = length fs + j + 242 \<and> finished r' \<and>
           finish_time r' = Some (257 / 10)"
  using assms
proof (induction j arbitrary: i r fs)
  case 0
  hence i: "i = 16" by simp
  have st: "calm_state 8 (1996 / 10 - 8 / 10 * real (241::nat)) r"
    using 0(2) unfolding i by simp
  have t: "real i / 10 = 257 / 10 - real (241::nat) / 10" unfolding i by simp
  from cruise[OF st t, of fs]
  obtain fs' r' where "race_loop (1 / 10) 200 40 (real i / 10) fs [r] =
      Some (Inr (258 / 10, fs', [r']))"
    "length fs' = length fs + 241 + 1" "finished r'" "finish_time r' = Some (257 / 10)"
    by blast
  thus ?case by (intro exI[of _ fs'] exI[of _ r']) simp
next
  case (Suc j)
  hence i: "i \<le> 15" by simp
  hence ri: "real i \<le> 15" by simp
  have r0: "0 \<le> real i" by simp
  define v where "v = real i / 2"
  define p where "p = real i * (real i + 1) / 40"
  have v: "0 \<le> v" "v \<le> 8" "real (Suc i) / 2 = (if v + 1 / 2 > 8 then 8 else v + 1 / 2)"
    using ri r0 by (simp_all add: v_def field_simps)
  have p': "p + real (Suc i) / 2 / 10 = real (Suc i) * (real (Suc i) + 1) / 40"
    by (simp add: p_def field_simps)
  have "real (Suc i) * (real (Suc i) + 1) \<le> 16 * 17"
    using ri by (intro mult_mono) simp_all
  hence lt: "p + real (Suc i) / 2 / 10 < 200" unfolding p' by simp
  have run: "real i / 10 < (40::real)" "\<not> list_all finished [r]"
    using ri Suc.prems(2) by (simp_all add: calm_state_def)
  have "\<exists>r'. update 200 (1 / 10) (real i / 10) rp r = Inr r' \<and>
          calm_state (real (Suc i) / 2) (p + real (Suc i) / 2 / 10) r'" for rp
    using Suc.prems(2)[folded v_def p_def] v lt by (rule calm_update_on)
  from single_tick[of 200 "1 / 10" "real i / 10" r _ fs, OF this]
  obtain fs1 r1 where
    tick: "race_tick (1 / 10) 200 (real i / 10) fs [r] = Inr (real i / 10 + 1 / 10, fs1, [r1])"
    and r1: "length fs1 = Suc (length fs)"
      "calm_state (real (Suc i) / 2) (p + real (Suc i) / 2 / 10) r1"
    by blast
  have st: "calm_state (real (Suc i) / 2) (real (Suc i) * (real (Suc i) + 1) / 40) r1"
    using r1(2) unfolding p' .
  have t1: "real i / 10 + 1 / 10 = real (Suc i) / 10" by (simp add: field_simps)
  have ij: "Suc i + j = 16" using Suc.prems(1) by simp
  from Suc.IH[OF ij st, of fs1]
  obtain fs' r' where res: "race_loop (1 / 10) 200 40 (real (Suc i) / 10) fs1 [r1] =
      Some (Inr (258 / 10, fs', [r']))"
    and r': "length fs' = length fs1 + j + 242" "finished r'"
      "finish_time r' = Some (257 / 10)"
    by blast
  have "race_loop (1 / 10) 200 40 (real i / 10) fs [r] = Some (Inr (258 / 10, fs', [r']))"
    using run tick res unfolding t1 by (subst race_loop.simps) simp
  with r' r1(1) show ?case by simp
qed

lemma calm_race:
  "\<exists>fs r. race_loop DT RACE_DISTANCE MAX_RACE_TIME 0 [] [calm_runner] =
            Some (Inr (258 / 10, fs, [r])) \<and>
          length fs = 258 \<and> finished r \<and> finish_time r = Some (257 / 10)"
proof -
  have st: "calm_state (real (0::nat) / 2) (real (0::nat) * (real (0::nat) + 1) / 40) calm_runner"
    by (simp add: calm_state_def same_static_def calm_runner_def new_runner_def)
  have "(0::nat) + 16 = 16" by simp
  from ramp[OF this st, of "[]"] show ?thesis
    by (simp add: DT_def RACE_DISTANCE_def MAX_RACE_TIME_def)
qed

subsection \<open>Rounding to binary64\<close>

lemma round_half_even_error: "\<bar>of_int (round_half_even y) - y\<bar> \<le> 1 / 2"
proof -
  have "of_int \<lfloor>y\<rfloor> \<le> y" "y < of_int \<lfloor>y\<rfloor> + 1" by linarith+
  thus ?thesis by (auto simp: round_half_even_def Let_def)
qed

lemma round_half_even_of_int: "round_half_even (of_int z) = z"
  by (simp add: round_half_even_def Let_def)

lemma double_round_error: "\<bar>double_round x - x\<bar> \<le> \<bar>x\<bar> / 2 ^ 53"
proof (cases "x = 0")
  case True
  then show ?thesis by (simp add: double_round_def)
next
  case False
  define e where "e = \<lfloor>log 2 \<bar>x\<bar>\<rfloor>"
  define ulp :: real where "ulp = 2 powr (of_int e - 52)"
  have ax: "0 < \<bar>x\<bar>" using False by simp
  have ulp0: "0 < ulp" by (simp add: ulp_def)
  have "of_int e \<le> log 2 \<bar>x\<bar>" unfolding e_def by (rule of_int_floor_le)
  hence "2 powr (of_int e) \<le> 2 powr (log 2 \<bar>x\<bar>)" by (simp add: powr_mono)
  hence pe: "2 powr (of_int e) \<le> \<bar>x\<bar>" using ax by simp
  have split: "ulp * 2 ^ 52 = 2 powr (of_int e)"
  proof -
    have "(2::real) ^ 52 = 2 powr 52" by (simp add: powr_realpow[symmetric])
    hence "ulp * 2 ^ 52 = 2 powr (of_int e - 52) * 2 powr 52" by (simp add: ulp_def)
    also have "\<dots> = 2 powr (of_int e - 52 + 52)" by (simp only: powr_add)
    finally show ?thesis by simp
  qed
  have dr: "double_round x = ulp * of_int (round_half_even (x / ulp))"
    using False by (simp add: double_round_def Let_def ulp_def e_def)
  have "double_round x - x = ulp * (of_int (round_half_even (x / ulp)) - x / ulp)"
    using ulp0 by (simp add: dr algebra_simps)
  hence "\<bar>double_round x - x\<bar> = ulp * \<bar>of_int (round_half_even (x / ulp)) - x / ulp\<bar>"
    using ulp0 by (simp add: abs_mult)
  also have "\<dots> \<le> ulp * (1 / 2)"
    using ulp0 round_half_even_error[of "x / ulp"] by (intro mult_left_mono) simp_all
  also have "\<dots> = (ulp * 2 ^ 52) / 2 ^ 53" by simp
  also have "\<dots> \<le> \<bar>x\<bar> / 2 ^ 53" unfolding split using pe by (simp add: divide_right_mono)
  finally show ?thesis .
qed

lemma double_round_bounds:
  assumes "0 \<le> y"
  shows "y * (1 - unit_roundoff) \<le> double_round y"
    "double_round y \<le> y * (1 + unit_roundoff)"
    "0 \<le> double_round y"
proof -
  have "\<bar>double_round y - y\<bar> \<le> y / 2 ^ 53" using double_round_error[of y] assms by simp
  hence e: "\<bar>double_round y - y\<bar> \<le> y * unit_roundoff" by (simp add: unit_roundoff_def)
  have a: "y - y * unit_roundoff \<le> double_round y" "double_round y \<le> y + y * unit_roundoff"
    using e by linarith+
  show b: "y * (1 - unit_roundoff) \<le> double_round y" using a(1) by (simp add: algebra_simps)
  show "double_round y \<le> y * (1 + unit_roundoff)" using a(2) by (simp add: algebra_simps)
  have "0 \<le> y * (1 - unit_roundoff)" using assms by (simp add: unit_roundoff_def)
  with b show "0 \<le> double_round y" by linarith
qed

lemma roundoff_condition:
  assumes "(real (nat \<lceil>mt / dt\<rceil>) + 1)\<^sup>2 \<le> 2 ^ 53"
  shows "(real (nat \<lceil>mt / dt\<rceil>) + 1)\<^sup>2 * unit_roundoff \<le> 1"
  using assms by (simp add: unit_roundoff_def field_simps)

text \<open>Evaluating the rounding once the binade of the argument is known.\<close>

lemma double_round_binade:
  assumes "0 < p" "p = 2 powr (of_int e)" "p \<le> x" "x < 2 * p"
  shows "double_round x = p / 2 ^ 52 * of_int (round_half_even (x / (p / 2 ^ 52)))"
proof -
  have x: "0 < x" using assms(1,3) by simp
  have "2 powr (of_int e + 1) = 2 * p" using assms(2) by (simp add: powr_add)
  hence fl: "\<lfloor>log 2 x\<rfloor> = e"
    using assms x by (subst floor_log_eq_powr_iff) simp_all
  have "(2::real) ^ 52 = 2 powr 52" by (simp add: powr_realpow[symmetric])
  hence ulp: "2 powr (of_int e - 52) = p / 2 ^ 52"
    using assms(2) by (simp only: powr_diff)
  have "double_round x =
      2 powr (of_int \<lfloor>log 2 x\<rfloor> - 52) *
      of_int (round_half_even (x / 2 powr (of_int \<lfloor>log 2 x\<rfloor> - 52)))"
    using x by (simp add: double_round_def Let_def)
  thus ?thesis by (simp only: fl ulp)
qed

lemma binades:
  "(1 / 16 :: real) = 2 powr (of_int (- 4))" "(1 / 8 :: real) = 2 powr (of_int (- 3))"
  "(1 / 4 :: real) = 2 powr (of_int (- 2))" "(1 / 2 :: real) = 2 powr (of_int (- 1))"
  "(1 :: real) = 2 powr (of_int 0)"
  by (simp_all add: powr_minus_divide)

lemma double_round_small_int:
  "double_round 1 = 1" "double_round 2 = 2" "double_round 3 = 3"
proof -
  have b: "(1 :: real) = 2 powr (of_int 0)" "(2 :: real) = 2 powr (of_int 1)" by simp_all
  show "double_round 1 = 1"
    by (subst double_round_binade[OF _ b(1)]) (simp_all add: round_half_even_def Let_def)
  show "double_round 2 = 2"
    by (subst double_round_binade[OF _ b(2)]) (simp_all add: round_half_even_def Let_def)
  show "double_round 3 = 3"
    by (subst double_round_binade[OF _ b(2)]) (simp_all add: round_half_even_def Let_def)
qed

lemma double_round_tenth: "double_round (1 / 10) = DT_double"
  by (subst double_round_binade[OF _ binades(1)])
     (simp_all add: DT_double_def round_half_even_def Let_def)

text \<open>
  The clock of a race with the time step \<open>DT_double\<close>: the values of \<open>t\<close> after one to
  eleven ticks. The tenth is \<^verbatim>\<open>0.9999999999999999\<close>, below 1.
\<close>

lemma clock_1: "double_round (0 + DT_double) = 3602879701896397 / 36028797018963968"
  by (subst double_round_binade[OF _ binades(1)])
     (simp_all add: DT_double_def round_half_even_def Let_def)

lemma clock_2: "double_round (3602879701896397 / 36028797018963968 + DT_double) = 3602879701896397 / 18014398509481984"
  by (subst double_round_binade[OF _ binades(2)])
     (simp_all add: DT_double_def round_half_even_def Let_def)

lemma clock_3: "double_round (3602879701896397 / 18014398509481984 + DT_double) = 1351079888211149 / 4503599627370496"
  by (subst double_round_binade[OF _ binades(3)])
     (simp_all add: DT_double_def round_half_even_def Let_def)

lemma clock_4: "double_round (1351079888211149 / 4503599627370496 + DT_double) = 3602879701896397 / 9007199254740992"
  by (subst double_round_binade[OF _ binades(3)])
     (simp_all add: DT_double_def round_half_even_def Let_def)

lemma clock_5: "double_round (3602879701896397 / 9007199254740992 + DT_double) = 1 / 2"
  by (subst double_round_binade[OF _ binades(4)])
     (simp_all add: DT_double_def round_half_even_def Let_def)

lemma clock_6: "double_round (1 / 2 + DT_double) = 5404319552844595 / 9007199254740992"
  by (subst double_round_binade[OF _ binades(4)])
     (simp_all add: DT_double_def round_half_even_def Let_def)

lemma clock_7: "double_round (5404319552844595 / 9007199254740992 + DT_double) = 3152519739159347 / 4503599627370496"
  by (subst double_round_binade[OF _ binades(4)])
     (simp_all add: DT_double_def round_half_even_def Let_def)

lemma clock_8: "double_round (3152519739159347 / 4503599627370496 + DT_double) = 7205759403792793 / 9007199254740992"
  by (subst double_round_binade[OF _ binades(4)])
     (simp_all add: DT_double_def round_half_even_def Let_def)

lemma clock_9: "double_round (7205759403792793 / 9007199254740992 + DT_double) = 2026619832316723 / 2251799813685248"
  by (subst double_round_binade[OF _ binades(4)])
     (simp_all add: DT_double_def round_half_even_def Let_def)

lemma clock_10: "double_round (2026619832316723 / 2251799813685248 + DT_double) = 9007199254740991 / 9007199254740992"
  by (subst double_round_binade[OF _ binades(4)])
     (simp_all add: DT_double_def round_half_even_def Let_def)

lemma clock_11: "double_round (9007199254740991 / 9007199254740992 + DT_double) = 4953959590107545 / 4503599627370496"
  by (subst double_round_binade[OF _ binades(5)])
     (simp_all add: DT_double_def round_half_even_def Let_def)

text \<open>
  The natural numbers below \<open>2^53\<close> are binary64 numbers; the sum \<open>2^53 + 1\<close> is not,
  and is rounded back to \<open>2^53\<close>.
\<close>

lemma double_round_nat:
  assumes "n < 2 ^ 53"
  shows "double_round (real n) = real n"
proof (cases "n = 0")
  case True
  then show ?thesis by (simp add: double_round_def)
next
  case False
  hence "1 \<le> n" by simp
  then obtain e where e: "2 ^ e \<le> n" "n < 2 ^ (e + 1)"
    using ex_power_ivl1[of 2 n] by auto
  have lt: "(2::nat) ^ e < 2 ^ 53" using e(1) assms by (rule le_less_trans)
  have "(1::nat) < 2" by simp
  hence "e < 53" using lt by (rule power_less_imp_less_exp)
  hence e52: "e \<le> 52" by simp
  define p :: real where "p = 2 ^ e"
  define q :: real where "q = 2 ^ (52 - e)"
  have p0: "0 < p" by (simp add: p_def)
  have pe: "p = 2 powr (of_int (int e))" by (simp add: p_def powr_realpow)
  have lo: "p \<le> real n"
    unfolding p_def using e(1) by (metis of_nat_le_iff of_nat_numeral of_nat_power)
  have hi: "real n < 2 * p"
  proof -
    have "real n < real (2 ^ (e + 1))" using e(2) by (simp only: of_nat_less_iff)
    thus ?thesis by (simp add: p_def)
  qed
  have pq: "p * q = 2 ^ 52"
    unfolding p_def q_def using e52 by (simp add: power_add[symmetric])
  have q0: "0 < q" by (simp add: q_def)
  have ulp: "p / 2 ^ 52 = 1 / q"
    using pq p0 q0 by (simp add: field_simps)
  have arg: "real n / (1 / q) = of_int (int (n * 2 ^ (52 - e)))"
    by (simp add: q_def)
  have "double_round (real n) = 1 / q * of_int (round_half_even (real n / (1 / q)))"
    using double_round_binade[OF p0 pe lo hi] by (simp only: ulp)
  also have "\<dots> = 1 / q * of_int (int (n * 2 ^ (52 - e)))"
    by (simp only: arg round_half_even_of_int)
  also have "\<dots> = real n" using q0 by (simp add: q_def)
  finally show ?thesis .
qed

lemma double_round_limit:
  "double_round 9007199254740992 = 9007199254740992"
proof -
  have b: "(9007199254740992 :: real) = 2 powr (of_int 53)"
    by (simp add: powr_realpow[of 2 53, simplified])
  show ?thesis
    by (subst double_round_binade[OF _ b]) (simp_all add: round_half_even_def Let_def)
qed

lemma double_round_stall:
  "double_round (9007199254740992 + 1) = 9007199254740992"
proof -
  have b: "(9007199254740992 :: real) = 2 powr (of_int 53)"
    by (simp add: powr_realpow[of 2 53, simplified])
  show ?thesis
    by (subst double_round_binade[OF _ b]) (simp_all add: round_half_even_def Let_def)
qed

lemma unit_clock_step:
  assumes "k \<le> 2 ^ 53"
  shows "\<exists>k' \<le> 2 ^ 53. double_round (real k + 1) = real k'"
proof -
  consider "k + 1 < 2 ^ 53" | "k + 1 = 2 ^ 53" | "k = 2 ^ 53" using assms by linarith
  thus ?thesis
  proof cases
    case 1
    have "double_round (real (k + 1)) = real (k + 1)" using 1 by (rule double_round_nat)
    hence "double_round (real k + 1) = real (k + 1)" by (simp add: add.commute)
    with 1 show ?thesis by (intro exI[of _ "k + 1"]) simp
  next
    case 2
    hence "real (k + 1) = real (2 ^ 53)" by (simp only:)
    hence "real k + 1 = 9007199254740992" by simp
    hence "double_round (real k + 1) = real (2 ^ 53)"
      using double_round_limit by simp
    thus ?thesis by (intro exI[of _ "2 ^ 53"]) simp
  next
    case 3
    hence "double_round (real k + 1) = real (2 ^ 53)"
      using double_round_stall by simp
    thus ?thesis by (intro exI[of _ "2 ^ 53"]) simp
  qed
qed

subsection \<open>The loop with the rounded clock\<close>

lemma race_tick_float_Inr:
  assumes "race_tick_float dt rd t fs rs = Inr (t', fs', rs')"
  shows "\<exists>rp. race_progress_of rd rs = Inr rp \<and> update_all rd dt t rp rs = Inr rs' \<and>
              t' = double_round (t + dt) \<and>
              fs' = fs @ [\<lparr>time = t, positions = map position rs',
                            staminas = map stamina rs', speeds = map speed rs'\<rparr>]"
  using assms by (auto simp: race_tick_float_def split: sum.splits)

lemma race_tick_float_total:
  assumes "rs \<noteq> []"
  shows "\<exists>t' fs' rs'. race_tick_float dt rd t fs rs = Inr (t', fs', rs')"
proof -
  obtain rp where rp: "race_progress_of rd rs = Inr rp"
    using race_progress_total[OF assms] by blast
  obtain rs' where "update_all rd dt t rp rs = Inr rs'" using update_all_total by blast
  with rp show ?thesis by (simp add: race_tick_float_def)
qed

lemma race_tick_float_rel:
  assumes "race_tick_float dt rd t fs rs = Inr (t', fs', rs')"
  shows "\<exists>rp. list_all2 (\<lambda>r r'. update rd dt t rp r = Inr r') rs rs'"
  using race_tick_float_Inr[OF assms] update_all_rel by blast

lemma race_tick_float_length:
  assumes "race_tick_float dt rd t fs rs = Inr (t', fs', rs')"
  shows "length rs' = length rs" "length fs' = Suc (length fs)" "t' = double_round (t + dt)"
proof -
  obtain rp where "list_all2 (\<lambda>r r'. update rd dt t rp r = Inr r') rs rs'"
    using race_tick_float_rel[OF assms(1)] by blast
  thus "length rs' = length rs" by (simp add: list_all2_lengthD)
  show "length fs' = Suc (length fs)" "t' = double_round (t + dt)"
    using race_tick_float_Inr[OF assms] by auto
qed

lemma race_tick_float_preserves:
  assumes "race_tick_float dt rd t fs rs = Inr (t', fs', rs')" "list_all Q rs"
    and "\<And>rp r r'. update rd dt t rp r = Inr r' \<Longrightarrow> Q r \<Longrightarrow> Q' r'"
  shows "list_all Q' rs'"
proof -
  obtain rp where "list_all2 (\<lambda>r r'. update rd dt t rp r = Inr r') rs rs'"
    using race_tick_float_rel[OF assms(1)] by blast
  thus ?thesis using assms(2,3) by (rule list_all2_preserves)
qed

lemma race_loop_float_rule:
  assumes loop: "race_loop_float dt rd mt t fs rs = Some res"
    and init: "I t fs rs"
    and step: "\<And>t fs rs t' fs' rs'. I t fs rs \<Longrightarrow> t < mt \<Longrightarrow> \<not> list_all finished rs \<Longrightarrow>
           race_tick_float dt rd t fs rs = Inr (t', fs', rs') \<Longrightarrow> I t' fs' rs'"
  shows "\<exists>t' fs' rs'. res = Inr (t', fs', rs') \<and> I t' fs' rs' \<and>
           \<not> (t' < mt \<and> \<not> list_all finished rs')"
proof -
  define P where "P = (\<lambda>dt' rd' mt' t fs rs
     (res :: error + real \<times> frame list \<times> BodySystemRunner list).
     dt' = dt \<and> rd' = rd \<and> mt' = mt \<and> I t fs rs \<longrightarrow>
     (\<exists>t' fs' rs'. res = Inr (t', fs', rs') \<and> I t' fs' rs' \<and>
           \<not> (t' < mt \<and> \<not> list_all finished rs')))"
  have "P dt rd mt t fs rs res"
  proof (rule race_loop_float.raw_induct[where P = P, OF _ loop])
    fix f dt' rd' mt' t fs rs res
    assume IH: "\<And>a b c d e g y. f a b c d e g = Some y \<Longrightarrow> P a b c d e g y"
      and body: "(if t < mt' \<and> \<not> list_all finished rs
        then case race_tick_float dt' rd' t fs rs of Inl e \<Rightarrow> Some (Inl e)
             | Inr (t', frames', runners') \<Rightarrow> f dt' rd' mt' t' frames' runners'
        else Some (Inr (t, fs, rs))) = Some res"
    show "P dt' rd' mt' t fs rs res"
      unfolding P_def
    proof (intro impI, elim conjE)
      assume eq: "dt' = dt" "rd' = rd" "mt' = mt" and I: "I t fs rs"
      show "\<exists>t' fs' rs'. res = Inr (t', fs', rs') \<and> I t' fs' rs' \<and>
           \<not> (t' < mt \<and> \<not> list_all finished rs')"
      proof (cases "t < mt \<and> \<not> list_all finished rs")
        case False
        with body eq have "res = Inr (t, fs, rs)" by auto
        with I False show ?thesis by simp
      next
        case True
        hence "rs \<noteq> []" by auto
        then obtain t' fs' rs' where tick: "race_tick_float dt rd t fs rs = Inr (t', fs', rs')"
          using race_tick_float_total by blast
        with True body eq have "f dt rd mt t' fs' rs' = Some res" by simp
        from IH[OF this] have ih: "P dt rd mt t' fs' rs' res" .
        have "I t' fs' rs'" using step[of t fs rs t' fs' rs'] I True tick by simp
        with ih show ?thesis unfolding P_def by simp
      qed
    qed
  qed
  with init show ?thesis unfolding P_def by simp
qed

lemma race_loop_float_never_raises:
  "race_loop_float dt rd mt t fs rs \<noteq> Some (Inl e)"
proof
  assume "race_loop_float dt rd mt t fs rs = Some (Inl e)"
  from race_loop_float_rule[OF this, where I = "\<lambda>_ _ _. True"] show False by simp
qed

lemma clock_sound_start: "clock_sound dt 0 []"
  by (simp add: clock_sound_def)

lemma clock_sound_step:
  assumes "0 < dt" "clock_sound dt t fs" "length fs' = Suc (length fs)"
  shows "clock_sound dt (double_round (t + dt)) fs'"
proof -
  define k where "k = real (length fs)"
  define u where "u = unit_roundoff"
  have u: "0 \<le> u" "u \<le> 1" by (simp_all add: u_def unit_roundoff_def)
  have k: "0 \<le> k" by (simp add: k_def)
  have t: "0 \<le> t" "dt * k * (1 - k * u) \<le> t"
    using assms(2) by (simp_all add: clock_sound_def k_def u_def)
  have y: "0 \<le> t + dt" using t(1) assms(1) by simp
  have lo: "(t + dt) * (1 - u) \<le> double_round (t + dt)"
    using double_round_bounds(1)[OF y] by (simp add: u_def)
  have "(dt * k * (1 - k * u) + dt) * (1 - u) \<le> (t + dt) * (1 - u)"
    using t(2) u by (intro mult_right_mono) simp_all
  moreover have "dt * (k + 1) * (1 - (k + 1) * u) \<le> (dt * k * (1 - k * u) + dt) * (1 - u)"
  proof -
    have "(dt * k * (1 - k * u) + dt) * (1 - u) - dt * (k + 1) * (1 - (k + 1) * u)
          = dt * u * (k + k * k * u)"
      by (simp add: algebra_simps)
    moreover have "0 \<le> dt * u * (k + k * k * u)" using assms(1) u k by simp
    ultimately show ?thesis by linarith
  qed
  ultimately have "dt * (k + 1) * (1 - (k + 1) * u) \<le> double_round (t + dt)"
    using lo by linarith
  moreover have "real (length fs') = k + 1" using assms(3) by (simp add: k_def)
  ultimately show ?thesis
    using double_round_bounds(3)[OF y] by (simp add: clock_sound_def u_def)
qed

lemma clock_bound:
  assumes "0 < dt" "clock_sound dt t fs" "t < mt" "length fs \<le> Suc (nat \<lceil>mt / dt\<rceil>)"
    and "(real (nat \<lceil>mt / dt\<rceil>) + 1)\<^sup>2 * unit_roundoff \<le> 1"
  shows "length fs \<le> nat \<lceil>mt / dt\<rceil>"
proof (rule ccontr)
  assume "\<not> length fs \<le> nat \<lceil>mt / dt\<rceil>"
  with assms(4) have len: "length fs = Suc (nat \<lceil>mt / dt\<rceil>)" by simp
  define m where "m = real (nat \<lceil>mt / dt\<rceil>)"
  define u where "u = unit_roundoff"
  have k: "real (length fs) = m + 1" using len by (simp add: m_def)
  have t: "0 \<le> t" "dt * (m + 1) * (1 - (m + 1) * u) \<le> t"
    using assms(2) by (simp_all add: clock_sound_def k u_def)
  have sq: "(m + 1) * (m + 1) * u \<le> 1"
    using assms(5) by (simp add: m_def u_def power2_eq_square)
  have "dt * ((m + 1) * (m + 1) * u) \<le> dt * 1"
    using sq assms(1) by (intro mult_left_mono) simp_all
  moreover have "dt * (m + 1) * (1 - (m + 1) * u) = dt * (m + 1) - dt * ((m + 1) * (m + 1) * u)"
    by (simp add: algebra_simps)
  ultimately have lo: "dt * m \<le> t" using t(2) by (simp add: algebra_simps)
  have "mt / dt \<le> real_of_int \<lceil>mt / dt\<rceil>" by (rule le_of_int_ceiling)
  also have "\<dots> \<le> m" by (simp add: m_def)
  finally have "mt \<le> dt * m" using assms(1) by (simp add: field_simps)
  with lo assms(3) show False by simp
qed

lemma race_loop_float_terminates:
  assumes "0 < dt" and "(real (nat \<lceil>mt / dt\<rceil>) + 1)\<^sup>2 * unit_roundoff \<le> 1"
    and "clock_sound dt t fs" and "length fs \<le> Suc (nat \<lceil>mt / dt\<rceil>)"
  shows "\<exists>res. race_loop_float dt rd mt t fs rs = Some res"
  using assms(3,4)
proof (induction "Suc (nat \<lceil>mt / dt\<rceil>) - length fs" arbitrary: t fs rs rule: less_induct)
  case less
  show ?case
  proof (cases "t < mt \<and> \<not> list_all finished rs")
    case False
    thus ?thesis by (subst race_loop_float.simps) auto
  next
    case True
    hence "rs \<noteq> []" by auto
    then obtain t' fs' rs' where tick: "race_tick_float dt rd t fs rs = Inr (t', fs', rs')"
      using race_tick_float_total by blast
    have lt: "t < mt" using True by simp
    have len: "length fs \<le> nat \<lceil>mt / dt\<rceil>"
      using assms(1) less.prems(1) lt less.prems(2) assms(2) by (rule clock_bound)
    have l': "length fs' = Suc (length fs)" and t': "t' = double_round (t + dt)"
      using race_tick_float_length[OF tick] by simp_all
    have cs: "clock_sound dt t' fs'"
      unfolding t' using assms(1) less.prems(1) l' by (rule clock_sound_step)
    have le: "length fs' \<le> Suc (nat \<lceil>mt / dt\<rceil>)" using len l' by simp
    have "Suc (nat \<lceil>mt / dt\<rceil>) - length fs' < Suc (nat \<lceil>mt / dt\<rceil>) - length fs"
      using len l' by simp
    from less.hyps[OF this cs le] obtain res where
      "race_loop_float dt rd mt t' fs' rs' = Some res" by blast
    with True tick show ?thesis by (subst race_loop_float.simps) simp
  qed
qed

lemma ticks_float_snoc:
  "ticks_float n dt rd t0 fs0 rs0 = Inr (t, fs, rs) \<Longrightarrow>
   ticks_float (Suc n) dt rd t0 fs0 rs0 = race_tick_float dt rd t fs rs"
proof (induction n arbitrary: t0 fs0 rs0)
  case 0
  then show ?case by (auto split: sum.splits)
next
  case (Suc n)
  from Suc.prems obtain t1 fs1 rs1 where
    tick: "race_tick_float dt rd t0 fs0 rs0 = Inr (t1, fs1, rs1)"
    and rest: "ticks_float n dt rd t1 fs1 rs1 = Inr (t, fs, rs)"
    by (auto split: sum.splits)
  from Suc.IH[OF rest] tick show ?case by simp
qed

lemma ticks_float_add:
  "ticks_float (n + m) dt rd t fs rs =
     (case ticks_float n dt rd t fs rs of
        Inl e \<Rightarrow> Inl e
      | Inr (t', fs', rs') \<Rightarrow> ticks_float m dt rd t' fs' rs')"
proof (induction n arbitrary: t fs rs)
  case 0
  then show ?case by simp
next
  case (Suc n)
  then show ?case by (auto split: sum.splits)
qed

lemma ticks_float_shape:
  "ticks_float n dt rd t0 fs0 rs0 = Inr (t, fs, rs) \<Longrightarrow>
   length fs = length fs0 + n \<and> length rs = length rs0"
proof (induction n arbitrary: t0 fs0 rs0)
  case 0
  then show ?case by simp
next
  case (Suc n)
  from Suc.prems obtain t1 fs1 rs1 where
    tick: "race_tick_float dt rd t0 fs0 rs0 = Inr (t1, fs1, rs1)"
    and rest: "ticks_float n dt rd t1 fs1 rs1 = Inr (t, fs, rs)"
    by (auto split: sum.splits)
  from Suc.IH[OF rest] race_tick_float_length[OF tick] show ?case by simp
qed

lemma ticks_float_nonneg:
  "ticks_float n dt rd t0 fs0 rs0 = Inr (t, fs, rs) \<Longrightarrow> 0 \<le> dt \<Longrightarrow> 0 \<le> t0 \<Longrightarrow> 0 \<le> t"
proof (induction n arbitrary: t0 fs0 rs0)
  case 0
  then show ?case by simp
next
  case (Suc n)
  from Suc.prems(1) obtain t1 fs1 rs1 where
    tick: "race_tick_float dt rd t0 fs0 rs0 = Inr (t1, fs1, rs1)"
    and rest: "ticks_float n dt rd t1 fs1 rs1 = Inr (t, fs, rs)"
    by (auto split: sum.splits)
  have "0 \<le> t0 + dt" using Suc.prems(2,3) by simp
  hence "0 \<le> t1" using race_tick_float_length(3)[OF tick] double_round_bounds(3) by simp
  from Suc.IH[OF rest Suc.prems(2) this] show ?case .
qed

lemma ticks_float_keep_finished:
  "ticks_float n dt rd t0 fs0 rs0 = Inr (t, fs, rs) \<Longrightarrow>
   list_all2 (\<lambda>r r'. finished r \<longrightarrow> r' = r) rs0 rs"
proof (induction n arbitrary: t0 fs0 rs0)
  case 0
  then show ?case by (simp add: list_all2_same)
next
  case (Suc n)
  from Suc.prems obtain t1 fs1 rs1 where
    tick: "race_tick_float dt rd t0 fs0 rs0 = Inr (t1, fs1, rs1)"
    and rest: "ticks_float n dt rd t1 fs1 rs1 = Inr (t, fs, rs)"
    by (auto split: sum.splits)
  obtain rp where "list_all2 (\<lambda>r r'. update rd dt t0 rp r = Inr r') rs0 rs1"
    using race_tick_float_rel[OF tick] by blast
  hence a: "list_all2 (\<lambda>r r'. finished r \<longrightarrow> r' = r) rs0 rs1"
    by (rule list_all2_mono) (simp add: update_keeps_finished)
  have b: "list_all2 (\<lambda>r r'. finished r \<longrightarrow> r' = r) rs1 rs" using rest by (rule Suc.IH)
  show ?case
    using a b
    by (rule list_all2_trans[rotated]) auto
qed

lemma race_loop_float_ticks:
  assumes "race_loop_float dt rd mt t0 fs0 rs0 = Some res"
  shows "\<exists>n s. res = Inr s \<and> ticks_float n dt rd t0 fs0 rs0 = Inr s \<and> \<not> running mt s \<and>
           (\<forall>k<n. \<exists>sk. ticks_float k dt rd t0 fs0 rs0 = Inr sk \<and> running mt sk)"
proof -
  let ?I = "\<lambda>t fs rs. \<exists>n. ticks_float n dt rd t0 fs0 rs0 = Inr (t, fs, rs) \<and>
           (\<forall>k<n. \<exists>sk. ticks_float k dt rd t0 fs0 rs0 = Inr sk \<and> running mt sk)"
  have "\<exists>t' fs' rs'. res = Inr (t', fs', rs') \<and> ?I t' fs' rs' \<and>
           \<not> (t' < mt \<and> \<not> list_all finished rs')"
  proof (rule race_loop_float_rule[OF assms, where I = ?I])
    have "ticks_float 0 dt rd t0 fs0 rs0 = Inr (t0, fs0, rs0)" by simp
    thus "?I t0 fs0 rs0" by (intro exI[of _ 0]) simp
  next
    fix t fs rs t' fs' rs'
    assume I: "?I t fs rs" and run: "t < mt" "\<not> list_all finished rs"
      and tick: "race_tick_float dt rd t fs rs = Inr (t', fs', rs')"
    from I obtain n where n: "ticks_float n dt rd t0 fs0 rs0 = Inr (t, fs, rs)"
      and before: "\<forall>k<n. \<exists>sk. ticks_float k dt rd t0 fs0 rs0 = Inr sk \<and> running mt sk"
      by blast
    have next_state: "ticks_float (Suc n) dt rd t0 fs0 rs0 = Inr (t', fs', rs')"
      using ticks_float_snoc[OF n] tick by simp
    have "\<exists>sk. ticks_float k dt rd t0 fs0 rs0 = Inr sk \<and> running mt sk" if "k < Suc n" for k
    proof (cases "k = n")
      case True
      with n run show ?thesis by (simp add: running_def)
    next
      case False
      with that before show ?thesis by simp
    qed
    with next_state show "?I t' fs' rs'" by blast
  qed
  thus ?thesis by (auto simp: running_def)
qed

lemma race_loop_float_timed:
  assumes "race_loop_float dt rd mt t fs rs = Some res" "0 \<le> dt" "0 \<le> t"
    "list_all (timed mt) rs"
  shows "\<exists>t' fs' rs'. res = Inr (t', fs', rs') \<and> list_all (timed mt) rs' \<and>
           \<not> (t' < mt \<and> \<not> list_all finished rs')"
proof -
  have "\<exists>t' fs' rs'. res = Inr (t', fs', rs') \<and> (0 \<le> t' \<and> list_all (timed mt) rs') \<and>
           \<not> (t' < mt \<and> \<not> list_all finished rs')"
  proof (rule race_loop_float_rule[OF assms(1),
        where I = "\<lambda>t fs rs. 0 \<le> t \<and> list_all (timed mt) rs"])
    show "0 \<le> t \<and> list_all (timed mt) rs" using assms(3,4) by simp
  next
    fix t fs rs t' fs' rs'
    assume I: "0 \<le> t \<and> list_all (timed mt) rs" and lt: "t < mt"
      and tick: "race_tick_float dt rd t fs rs = Inr (t', fs', rs')"
    have "list_all (timed mt) rs'"
      using tick I update_timed[where gt = t and mt = mt] lt
      by (intro race_tick_float_preserves[OF tick, where Q = "timed mt"]) auto
    moreover have "0 \<le> t + dt" using I assms(2) by simp
    hence "0 \<le> t'" using race_tick_float_length(3)[OF tick] double_round_bounds(3) by simp
    ultimately show "0 \<le> t' \<and> list_all (timed mt) rs'" by simp
  qed
  thus ?thesis by blast
qed

lemma race_loop_float_clock:
  assumes "race_loop_float dt rd mt 0 [] rs0 = Some res" "0 < dt"
    and "(real (nat \<lceil>mt / dt\<rceil>) + 1)\<^sup>2 * unit_roundoff \<le> 1"
  shows "\<exists>t fs rs. res = Inr (t, fs, rs) \<and> length fs \<le> Suc (nat \<lceil>mt / dt\<rceil>)"
proof -
  let ?I = "\<lambda>t fs (rs :: BodySystemRunner list).
              clock_sound dt t fs \<and> length fs \<le> Suc (nat \<lceil>mt / dt\<rceil>)"
  have "\<exists>t' fs' rs'. res = Inr (t', fs', rs') \<and> ?I t' fs' rs' \<and>
           \<not> (t' < mt \<and> \<not> list_all finished rs')"
  proof (rule race_loop_float_rule[OF assms(1), where I = ?I])
    show "?I 0 [] rs0" by (simp add: clock_sound_start)
  next
    fix t fs rs t' fs' rs'
    assume I: "?I t fs rs" and lt: "t < mt"
      and tick: "race_tick_float dt rd t fs rs = Inr (t', fs', rs')"
    have cs: "clock_sound dt t fs" and le: "length fs \<le> Suc (nat \<lceil>mt / dt\<rceil>)"
      using I by simp_all
    have len: "length fs \<le> nat \<lceil>mt / dt\<rceil>"
      using assms(2) cs lt le assms(3) by (rule clock_bound)
    have l': "length fs' = Suc (length fs)" and t': "t' = double_round (t + dt)"
      using race_tick_float_length[OF tick] by simp_all
    have "clock_sound dt t' fs'"
      unfolding t' using assms(2) cs l' by (rule clock_sound_step)
    with len l' show "?I t' fs' rs'" by simp
  qed
  thus ?thesis by blast
qed

lemma race_loop_float_runs:
  assumes "0 < dt" and "(real (nat \<lceil>mt / dt\<rceil>) + 1)\<^sup>2 * unit_roundoff \<le> 1"
  shows "\<exists>n t fs rs.
      race_loop_float dt rd mt 0 [] roster = Some (Inr (t, fs, rs)) \<and>
      ticks_float n dt rd 0 [] roster = Inr (t, fs, rs) \<and>
      length fs = n \<and> length rs = length roster \<and> n \<le> Suc (nat \<lceil>mt / dt\<rceil>) \<and>
      \<not> running mt (t, fs, rs) \<and>
      (\<forall>k<n. \<exists>sk. ticks_float k dt rd 0 [] roster = Inr sk \<and> running mt sk)"
proof -
  obtain res where res: "race_loop_float dt rd mt 0 [] roster = Some res"
    using race_loop_float_terminates[OF assms clock_sound_start, of rd roster] by auto
  from race_loop_float_ticks[OF res] obtain n s where s: "res = Inr s"
    and n: "ticks_float n dt rd 0 [] roster = Inr s" and stop: "\<not> running mt s"
    and before: "\<forall>k<n. \<exists>sk. ticks_float k dt rd 0 [] roster = Inr sk \<and> running mt sk"
    by blast
  obtain t fs rs where st: "s = (t, fs, rs)" by (cases s)
  have shape: "length fs = n" "length rs = length roster"
    using ticks_float_shape[of n dt rd 0 "[]" roster t fs rs] n st by simp_all
  have bound: "n \<le> Suc (nat \<lceil>mt / dt\<rceil>)"
    using race_loop_float_clock[OF res assms] s st shape(1) by auto
  show ?thesis
    using res s st n shape bound stop before by blast
qed

lemma race_loop_float_cap_below_finish:
  assumes dt: "0 < dt" and init: "list_all initial_state roster" and ne: "roster \<noteq> []"
    and mt: "0 \<le> mt" "mt \<le> mt'"
    and run: "race_loop_float dt rd mt 0 [] roster = Some (Inr (t, fs, rs))"
    and natural: "race_loop_float dt rd mt' 0 [] roster = Some (Inr (t2, fs2, rs2))"
      "list_all (not_before mt) rs2"
  shows "list_all (\<lambda>r. finish_time r = None) rs \<and> mt \<le> t \<and>
         t \<le> (mt + dt) * (1 + unit_roundoff)"
proof -
  from race_loop_float_ticks[OF run] obtain n where
    n: "ticks_float n dt rd 0 [] roster = Inr (t, fs, rs)" and stop: "\<not> running mt (t, fs, rs)"
    and before: "\<forall>k<n. \<exists>sk. ticks_float k dt rd 0 [] roster = Inr sk \<and> running mt sk"
    by blast
  from race_loop_float_ticks[OF natural(1)] obtain n2 where
    n2: "ticks_float n2 dt rd 0 [] roster = Inr (t2, fs2, rs2)"
    and stop2: "\<not> running mt' (t2, fs2, rs2)"
    by blast
  have le: "n \<le> n2"
  proof (rule ccontr)
    assume "\<not> n \<le> n2"
    hence "n2 < n" by simp
    with before n2 have "running mt (t2, fs2, rs2)" by auto
    hence "running mt' (t2, fs2, rs2)" using mt(2) by (simp add: running_def)
    with stop2 show False by simp
  qed
  then obtain m where m: "n2 = n + m" using le_Suc_ex by blast
  have "ticks_float m dt rd t fs rs = Inr (t2, fs2, rs2)"
    using n2 n ticks_float_add[of n m dt rd 0 "[]" roster] m by simp
  hence keep: "list_all2 (\<lambda>r r'. finished r \<longrightarrow> r' = r) rs rs2"
    by (rule ticks_float_keep_finished)
  have "list_all (timed mt) roster"
    using init by (rule list.pred_mono_strong) (simp add: initial_state_timed)
  with race_loop_float_timed[OF run] dt have timed: "list_all (timed mt) rs" by simp
  have dnf: "list_all (\<lambda>r. finish_time r = None) rs"
    using keep natural(2) timed by (rule list_all2_pull_back) (rule timed_not_before)
  have "list_all (\<lambda>r. \<not> finished r) rs"
    using timed dnf
    by (induction rs) (auto simp: timed_def consistent_def)
  moreover have "rs \<noteq> []"
    using ticks_float_shape[OF n] ne by auto
  ultimately have "\<not> list_all finished rs" by (cases rs) auto
  with stop have ge: "mt \<le> t" by (simp add: running_def)
  have u: "0 \<le> unit_roundoff" by (simp add: unit_roundoff_def)
  have lt: "t \<le> (mt + dt) * (1 + unit_roundoff)"
  proof (cases n)
    case 0
    with n have "t = 0" by simp
    with mt(1) dt u show ?thesis by simp
  next
    case (Suc k)
    with before obtain sk where sk: "ticks_float k dt rd 0 [] roster = Inr sk" "running mt sk"
      by blast
    obtain tk fk rk where skd: "sk = (tk, fk, rk)" by (cases sk)
    have tk: "tk < mt" using sk(2) skd by (simp add: running_def)
    have tk0: "0 \<le> tk"
      using ticks_float_nonneg[of k dt rd 0 "[]" roster tk fk rk] sk(1) skd dt by simp
    have "race_tick_float dt rd tk fk rk = Inr (t, fs, rs)"
      using ticks_float_snoc[of k dt rd 0 "[]" roster tk fk rk] sk(1) skd n Suc by simp
    hence "t = double_round (tk + dt)" by (rule race_tick_float_length(3))
    moreover have "0 \<le> tk + dt" using tk0 dt by simp
    ultimately have "t \<le> (tk + dt) * (1 + unit_roundoff)"
      using double_round_bounds(2) by simp
    also have "\<dots> \<le> (mt + dt) * (1 + unit_roundoff)"
      using tk u by (intro mult_right_mono) simp_all
    finally show ?thesis .
  qed
  from dnf ge lt show ?thesis by simp
qed

subsection \<open>Small races with the rounded clock\<close>

lemma zero_step_diverges_float:
  "race_loop_float 0 RACE_DISTANCE MAX_RACE_TIME 0 fs [calm_runner] = None"
proof (cases "race_loop_float 0 RACE_DISTANCE MAX_RACE_TIME 0 fs [calm_runner]")
  case None
  then show ?thesis .
next
  case (Some res)
  have "\<exists>t' fs' rs'. res = Inr (t', fs', rs') \<and> (t' = 0 \<and> rs' = [calm_runner]) \<and>
           \<not> (t' < MAX_RACE_TIME \<and> \<not> list_all finished rs')"
  proof (rule race_loop_float_rule[OF Some, where I = "\<lambda>t fs rs. t = 0 \<and> rs = [calm_runner]"])
    show "(0::real) = 0 \<and> [calm_runner] = [calm_runner]" by simp
  next
    fix t fs rs t' fs' rs'
    assume I: "t = 0 \<and> rs = [calm_runner]"
      and tick: "race_tick_float 0 RACE_DISTANCE t fs rs = Inr (t', fs', rs')"
    from race_tick_float_Inr[OF tick] I zero_step_update
    show "t' = 0 \<and> rs' = [calm_runner]" by (auto simp: double_round_def)
  qed
  hence False by (auto simp: MAX_RACE_TIME_def calm_runner_def new_runner_def)
  thus ?thesis ..
qed

lemmas eval_race_float =
  race_loop_float.simps race_tick_float_def race_progress_of_def py_div_def update_finished
  calm_runner_def calm_runner_done_def new_runner_def double_round_small_int

lemma sprint_float_uncapped:
  "\<exists>t fs. race_loop_float 1 20 MAX_RACE_TIME 0 [] [calm_runner] =
     Some (Inr (t, fs, [calm_runner_done]))"
  by (simp add: eval_race_float eval_update MAX_RACE_TIME_def)

lemma degenerate_race_float:
  "\<exists>s. race_loop_float 1 0 MAX_RACE_TIME 0 [] [degenerate_runner] = Some (Inr s)"
  by (simp add: eval_race_float eval_update MAX_RACE_TIME_def degenerate_runner_def)

text \<open>
  A runner with top speed 0 never moves, so only the cap ends its race: the number of
  ticks is the number of additions the clock needs to reach the cap.
\<close>

lemma stalled_unchanged:
  assumes "0 \<le> dt"
  shows "update RACE_DISTANCE dt t rp stalled_runner = Inr stalled_runner"
proof -
  have "min (100 + dt * 19 / 2) 100 = (100::real)" using assms by simp
  thus ?thesis
    using assms
    by (simp add: stalled_runner_def new_runner_def RACE_DISTANCE_def eval_update
        mult_le_0_iff zero_le_mult_iff algebra_simps)
qed

lemma stalled_exit:
  assumes "mt \<le> t"
  shows "frames_recorded (race_loop_float dt RACE_DISTANCE mt t fs [stalled_runner]) =
           Some (length fs + 0)"
  using assms by (subst race_loop_float.simps) (simp add: frames_recorded_def)

lemma stalled_tick:
  assumes "t < mt" "0 \<le> dt" "double_round (t + dt) = t'"
    and "\<And>fs. frames_recorded (race_loop_float dt RACE_DISTANCE mt t' fs [stalled_runner]) =
           Some (length fs + n)"
  shows "frames_recorded (race_loop_float dt RACE_DISTANCE mt t fs [stalled_runner]) =
           Some (length fs + Suc n)"
proof -
  have nf: "\<not> list_all finished [stalled_runner]"
    by (simp add: stalled_runner_def new_runner_def)
  obtain rp where rp: "race_progress_of RACE_DISTANCE [stalled_runner] = Inr rp"
    using race_progress_total[of "[stalled_runner]" RACE_DISTANCE] by auto
  have "race_tick_float dt RACE_DISTANCE t fs [stalled_runner] =
      Inr (t', fs @ [\<lparr>time = t, positions = map position [stalled_runner],
                       staminas = map stamina [stalled_runner],
                       speeds = map speed [stalled_runner]\<rparr>], [stalled_runner])"
    using rp stalled_unchanged[OF assms(2)] assms(3) by (simp add: race_tick_float_def)
  hence "race_loop_float dt RACE_DISTANCE mt t fs [stalled_runner] =
      race_loop_float dt RACE_DISTANCE mt t'
        (fs @ [\<lparr>time = t, positions = map position [stalled_runner],
                 staminas = map stamina [stalled_runner],
                 speeds = map speed [stalled_runner]\<rparr>]) [stalled_runner]"
    using assms(1) nf by (subst race_loop_float.simps) simp
  thus ?thesis using assms(4) by simp
qed

lemma DT_double_nonneg: "0 \<le> DT_double"
  by (simp add: DT_double_def)

lemma eleven_ticks:
  "frames_recorded (race_loop_float DT_double RACE_DISTANCE 1 0 [] [stalled_runner]) = Some 11"
proof -
  note tick = stalled_tick[OF _ DT_double_nonneg]
  have s11: "frames_recorded (race_loop_float DT_double RACE_DISTANCE 1 (4953959590107545 / 4503599627370496) fs [stalled_runner]) =
      Some (length fs + 0)" for fs
    by (rule stalled_exit) simp
  have s10: "frames_recorded (race_loop_float DT_double RACE_DISTANCE 1 (9007199254740991 / 9007199254740992) fs [stalled_runner]) =
      Some (length fs + Suc (0))" for fs
    by (rule tick[OF _ clock_11 s11]) simp
  have s9: "frames_recorded (race_loop_float DT_double RACE_DISTANCE 1 (2026619832316723 / 2251799813685248) fs [stalled_runner]) =
      Some (length fs + Suc (Suc (0)))" for fs
    by (rule tick[OF _ clock_10 s10]) simp
  have s8: "frames_recorded (race_loop_float DT_double RACE_DISTANCE 1 (7205759403792793 / 9007199254740992) fs [stalled_runner]) =
      Some (length fs + Suc (Suc (Suc (0))))" for fs
    by (rule tick[OF _ clock_9 s9]) simp
  have s7: "frames_recorded (race_loop_float DT_double RACE_DISTANCE 1 (3152519739159347 / 4503599627370496) fs [stalled_runner]) =
      Some (length fs + Suc (Suc (Suc (Suc (0)))))" for fs
    by (rule tick[OF _ clock_8 s8]) simp
  have s6: "frames_recorded (race_loop_float DT_double RACE_DISTANCE 1 (5404319552844595 / 9007199254740992) fs [stalled_runner]) =
      Some (length fs + Suc (Suc (Suc (Suc (Suc (0))))))" for fs
    by (rule tick[OF _ clock_7 s7]) simp
  have s5: "frames_recorded (race_loop_float DT_double RACE_DISTANCE 1 (1 / 2) fs [stalled_runner]) =
      Some (length fs + Suc (Suc (Suc (Suc (Suc (Suc (0)))))))" for fs
    by (rule tick[OF _ clock_6 s6]) simp
  have s4: "frames_recorded (race_loop_float DT_double RACE_DISTANCE 1 (3602879701896397 / 9007199254740992) fs [stalled_runner]) =
      Some (length fs + Suc (Suc (Suc (Suc (Suc (Suc (Suc (0))))))))" for fs
    by (rule tick[OF _ clock_5 s5]) simp
  have s3: "frames_recorded (race_loop_float DT_double RACE_DISTANCE 1 (1351079888211149 / 4503599627370496) fs [stalled_runner]) =
      Some (length fs + Suc (Suc (Suc (Suc (Suc (Suc (Suc (Suc (0)))))))))" for fs
    by (rule tick[OF _ clock_4 s4]) simp
  have s2: "frames_recorded (race_loop_float DT_double RACE_DISTANCE 1 (3602879701896397 / 18014398509481984) fs [stalled_runner]) =
      Some (length fs + Suc (Suc (Suc (Suc (Suc (Suc (Suc (Suc (Suc (0))))))))))" for fs
    by (rule tick[OF _ clock_3 s3]) simp
  have s1: "frames_recorded (race_loop_float DT_double RACE_DISTANCE 1 (3602879701896397 / 36028797018963968) fs [stalled_runner]) =
      Some (length fs + Suc (Suc (Suc (Suc (Suc (Suc (Suc (Suc (Suc (Suc (0)))))))))))" for fs
    by (rule tick[OF _ clock_2 s2]) simp
  have s0: "frames_recorded (race_loop_float DT_double RACE_DISTANCE 1 (0) fs [stalled_runner]) =
      Some (length fs + Suc (Suc (Suc (Suc (Suc (Suc (Suc (Suc (Suc (Suc (Suc (0))))))))))))" for fs
    by (rule tick[OF _ clock_1 s1]) simp
  from s0[of "[]"] show ?thesis by simp
qed

lemma unit_step_stalls:
  "race_loop_float 1 RACE_DISTANCE 18014398509481984 0 fs [stalled_runner] = None"
proof (cases "race_loop_float 1 RACE_DISTANCE 18014398509481984 0 fs [stalled_runner]")
  case None
  then show ?thesis .
next
  case (Some res)
  let ?I = "\<lambda>t (fs :: frame list) rs. (\<exists>k \<le> 2 ^ 53. t = real k) \<and> rs = [stalled_runner]"
  have "\<exists>t' fs' rs'. res = Inr (t', fs', rs') \<and> ?I t' fs' rs' \<and>
           \<not> (t' < 18014398509481984 \<and> \<not> list_all finished rs')"
  proof (rule race_loop_float_rule[OF Some, where I = ?I])
    show "?I 0 fs [stalled_runner]" by (simp add: exI[of _ 0])
  next
    fix t fs rs t' fs' rs'
    assume I: "?I t fs rs"
      and tick: "race_tick_float 1 RACE_DISTANCE t fs rs = Inr (t', fs', rs')"
    from I obtain k where k: "k \<le> 2 ^ 53" "t = real k" and rs: "rs = [stalled_runner]"
      by blast
    have "rs' = [stalled_runner]" "t' = double_round (t + 1)"
      using race_tick_float_Inr[OF tick] rs stalled_unchanged[of 1] by auto
    with unit_clock_step[OF k(1)] k(2) show "?I t' fs' rs'" by simp
  qed
  then obtain k :: nat where "k \<le> 2 ^ 53" "\<not> real k < 18014398509481984"
    by (auto simp: stalled_runner_def new_runner_def)
  hence False by simp
  thus ?thesis ..
qed

section \<open>The claims\<close>

subsection \<open>C1: stamina and speed stay in range\<close>

text \<open>
  Claim C1: for every competitor whose static parameters satisfy the declared
  constraints, and for every sequence of update calls with \<open>dt > 0\<close> (any
  \<open>global_time\<close>, any \<open>race_progress\<close>, any race distance) starting from the initial
  state, the sequence of calls returns and the runner it leaves has
  \<open>0 \<le> stamina \<le> stamina_max\<close> and \<open>0 \<le> speed \<le> top_speed * max burst_multiplier 1.1\<close>.
  The sequence is arbitrary, so this holds after every update of a run.

  The declared constraints are those of the data model: \<open>acceleration > 0\<close>,
  \<open>top_speed > 0\<close>, \<open>stamina_max > 0\<close>, \<open>stamina_regen \<ge> 0\<close>, \<open>fatigue_factor \<ge> 0\<close> and
  \<open>burst_multiplier \<ge> 1\<close>. Of the acceleration the proof uses only that it is not
  negative (stage 5 moves the speed towards the effective target by
  \<open>acceleration * dt\<close>), so the theorem is stated for \<open>acceleration \<ge> 0\<close>, which
  covers every declared acceleration.
\<close>

theorem stamina_speed_in_range:
  assumes "initial_state r0"
    and "0 < top_speed r0" and "0 < stamina_max r0" and "0 \<le> stamina_regen r0"
    and "0 \<le> fatigue_factor r0" and "1 \<le> burst_multiplier r0"
    and "0 \<le> acceleration r0"
    and "\<forall>c \<in> set calls. 0 < fst c"
  shows "\<exists>r. updates race_distance calls r0 = Inr r \<and>
             0 \<le> stamina r \<and> stamina r \<le> stamina_max r0 \<and>
             0 \<le> speed r \<and> speed r \<le> top_speed r0 * max (burst_multiplier r0) 1.1"
proof -
  have "in_range r0" using assms(1-3) by (simp add: initial_state_def in_range_def)
  then obtain r where r: "updates race_distance calls r0 = Inr r" "in_range r"
    using updates_in_range[of r0 calls race_distance] assms by auto
  from updates_same_static[OF r(1)] r show ?thesis
    by (auto simp: same_static_def in_range_def)
qed

theorem stamina_speed_in_range_witness:
  "initial_state calm_runner \<and> 0 < top_speed calm_runner \<and> 0 < stamina_max calm_runner \<and>
   0 \<le> stamina_regen calm_runner \<and> 0 \<le> fatigue_factor calm_runner \<and>
   1 \<le> burst_multiplier calm_runner \<and> 0 < acceleration calm_runner \<and>
   list_all (\<lambda>c. 0 < fst c) ([(1 / 10, 0, 0), (1 / 10, 1 / 10, 0)] :: (real \<times> real \<times> real) list) \<and>
   (\<exists>r. updates RACE_DISTANCE [(1 / 10, 0, 0), (1 / 10, 1 / 10, 0)] calm_runner = Inr r \<and>
        0 \<le> stamina r \<and> stamina r \<le> stamina_max calm_runner \<and>
        0 \<le> speed r \<and>
        speed r \<le> top_speed calm_runner * max (burst_multiplier calm_runner) 1.1)"
proof -
  have h: "initial_state calm_runner" "0 < top_speed calm_runner" "0 < stamina_max calm_runner"
    "0 \<le> stamina_regen calm_runner" "0 \<le> fatigue_factor calm_runner"
    "1 \<le> burst_multiplier calm_runner" "0 \<le> acceleration calm_runner"
    by (simp_all add: calm_runner_def new_runner_def initial_state_def)
  have a: "0 < acceleration calm_runner"
    by (simp add: calm_runner_def new_runner_def)
  have c: "\<forall>c \<in> set ([(1 / 10, 0, 0), (1 / 10, 1 / 10, 0)] :: (real \<times> real \<times> real) list).
             0 < fst c"
    by simp
  from stamina_speed_in_range[OF h c, of RACE_DISTANCE] h a show ?thesis by simp
qed

subsection \<open>C2: the single-runner scenario\<close>

text \<open>
  Claim C2 as it is written fails in its bound: the runner does finish, but its
  finish time is 25.7 s, which is 7 ticks (0.7 s) after \<open>200 / (0.8 * 10) = 25.0\<close> and
  not within the one or two ticks (0.1 to 0.2 s) of the claim.
\<close>

theorem calm_scenario_counterexample:
  "map_option (map_sum id (map finish_time \<circ> snd))
     (run_race [calm_runner] DT RACE_DISTANCE MAX_RACE_TIME) = Some (Inr [Some (257 / 10)]) \<and>
   \<not> \<bar>257 / 10 - 200 / (0.8 * 10)\<bar> \<le> 2 * DT"
proof -
  obtain fs r where
    "race_loop DT RACE_DISTANCE MAX_RACE_TIME 0 [] [calm_runner] = Some (Inr (258 / 10, fs, [r]))"
    "finish_time r = Some (257 / 10)"
    using calm_race by blast
  thus ?thesis by (simp add: run_race_def DT_def)
qed

text \<open>
  Claim C2, amended: the competitor of the scenario (acceleration 5, top speed 10,
  stamina 100, regeneration 10, burst multiplier 1, fatigue factor 0, calm, no
  ability), raced alone with \<open>dt = 0.1\<close> over 200 m under the cap of 40 s, reaches
  \<open>finished = true\<close> after 258 ticks with \<open>finish_time = 25.7\<close>, that is 7 ticks after
  \<open>200 / (0.8 * 10) = 25.0\<close>: the speed needs 16 ticks to reach 8, during which the
  runner covers 6.8 m, and the finish time is the time at which the crossing tick
  starts.
\<close>

theorem calm_scenario:
  "\<exists>fs r. run_race [calm_runner] DT RACE_DISTANCE MAX_RACE_TIME = Some (Inr (fs, [r])) \<and>
          length fs = 258 \<and> finished r \<and> finish_time r = Some (257 / 10) \<and>
          257 / 10 - 200 / (0.8 * 10) = 7 * DT"
proof -
  obtain fs r where
    "race_loop DT RACE_DISTANCE MAX_RACE_TIME 0 [] [calm_runner] = Some (Inr (258 / 10, fs, [r]))"
    "length fs = 258" "finished r" "finish_time r = Some (257 / 10)"
    using calm_race by blast
  thus ?thesis by (auto simp: run_race_def DT_def)
qed

subsection \<open>C3: the ranking\<close>

text \<open>
  Claim C3 as it is written fails in its first part: ``A is placed before B if and only
  if \<open>A.finish_time < B.finish_time\<close>'' cannot hold of two finished competitors with the
  same finish time, one of which is placed before the other. Two runners with the
  same parameters in lanes 1 and 2 both finish a 20 m sprint at \<open>t = 2\<close>; the stable
  sort leaves the first before the second, and 2 is not below 2.
\<close>

theorem ranking_law_counterexample:
  "map_option (map_sum id snd) (run_race [calm_runner, calm_rival] 1 20 MAX_RACE_TIME) =
     Some (Inr [calm_runner_done, calm_rival_done]) \<and>
   ordered [calm_runner_done, calm_rival_done] = [calm_runner_done, calm_rival_done] \<and>
   finish_time calm_runner_done = Some 2 \<and> finish_time calm_rival_done = Some 2 \<and>
   lane calm_runner_done \<noteq> lane calm_rival_done \<and> \<not> (2::real) < 2"
proof -
  obtain t fs where "race_loop 1 20 MAX_RACE_TIME 0 [] [calm_runner, calm_rival] =
     Some (Inr (t, fs, [calm_runner_done, calm_rival_done]))"
    using sprint_tie by blast
  hence "run_race [calm_runner, calm_rival] 1 20 MAX_RACE_TIME =
     Some (Inr (fs, [calm_runner_done, calm_rival_done]))" by (rule run_race_eq)
  thus ?thesis
    by (simp add: ordered_def sort_key_runner_def calm_rival_done_def calm_runner_done_def
        calm_runner_def new_runner_def)
qed

text \<open>
  Claim C3, amended: a race from a roster in the initial state, with a positive time
  step and a cap of at most \<^verbatim>\<open>1e9\<close>, returns, and in the ranking of the runners it
  returns (a rearrangement of them): for any two finished competitors A and B, if
  \<open>A.finish_time < B.finish_time\<close> then A is placed before B, and if A is placed before
  B then \<open>A.finish_time \<le> B.finish_time\<close> (so for different finish times A is before B
  if and only if its finish time is smaller); every unfinished competitor is placed
  after all finished competitors; competitors with the same finish time, and the
  unfinished competitors, keep their roster order.
\<close>

theorem ranking_law:
  assumes "list_all initial_state roster" and "0 < dt" and "max_time \<le> 1000000000"
  shows "\<exists>fs rs. run_race roster dt race_distance max_time = Some (Inr (fs, rs)) \<and>
           length (ordered rs) = length rs \<and> set (ordered rs) = set rs \<and>
           (\<forall>i j a b. i < length rs \<and> j < length rs \<and>
               finish_time (ordered rs ! i) = Some a \<and>
               finish_time (ordered rs ! j) = Some b \<longrightarrow>
               (a < b \<longrightarrow> i < j) \<and> (i < j \<longrightarrow> a \<le> b)) \<and>
           (\<forall>i j. i < length rs \<and> j < length rs \<and>
               finish_time (ordered rs ! i) \<noteq> None \<and>
               finish_time (ordered rs ! j) = None \<longrightarrow> i < j) \<and>
           (\<forall>x. filter (\<lambda>r. finish_time r = x) (ordered rs) =
                filter (\<lambda>r. finish_time r = x) rs)"
proof -
  obtain t fs rs where run: "race_loop dt race_distance max_time 0 [] roster = Some (Inr (t, fs, rs))"
    and timed: "list_all (timed max_time) rs"
    using race_result_timed[OF assms(1,2)] by blast
  have bs: "list_all below_sentinel rs"
    using timed by (rule list.pred_mono_strong) (simp add: timed_below_sentinel assms(3))
  have a: "(a < b \<longrightarrow> i < j) \<and> (i < j \<longrightarrow> a \<le> b)"
    if "i < length rs" "j < length rs" "finish_time (ordered rs ! i) = Some a"
      "finish_time (ordered rs ! j) = Some b" for i j a b
    using that by (rule ordered_finished_by_time)
  have b: "i < j"
    if "i < length rs" "j < length rs" "finish_time (ordered rs ! i) \<noteq> None"
      "finish_time (ordered rs ! j) = None" for i j
    using bs that by (rule ordered_unfinished_last)
  show ?thesis
    using run_race_eq[OF run] ordered_length[of rs] ordered_set[of rs] a b ordered_stable[of _ rs]
    by blast
qed

theorem ranking_law_witness:
  "list_all initial_state [stalled_runner, calm_runner] \<and> (0::real) < 1 \<and>
   (4::real) \<le> 1000000000 \<and>
   (\<exists>fs. run_race [stalled_runner, calm_runner] 1 20 4 =
            Some (Inr (fs, [stalled_runner, calm_runner_done]))) \<and>
   ordered [stalled_runner, calm_runner_done] = [calm_runner_done, stalled_runner] \<and>
   finish_time calm_runner_done = Some 2 \<and> finish_time stalled_runner = None \<and>
   filter (\<lambda>r. finish_time r = None) (ordered [stalled_runner, calm_runner_done]) =
     [stalled_runner]"
proof -
  have h: "list_all initial_state [stalled_runner, calm_runner]" "(0::real) < 1"
    "(4::real) \<le> 1000000000"
    by (simp_all add: calm_runner_def stalled_runner_def new_runner_def initial_state_def)
  obtain t2 fs2 where "race_loop 1 20 4 0 [] [stalled_runner, calm_runner] =
     Some (Inr (t2, fs2, [stalled_runner, calm_runner_done]))"
    using sprint_outsider by blast
  hence u: "run_race [stalled_runner, calm_runner] 1 20 4 =
     Some (Inr (fs2, [stalled_runner, calm_runner_done]))" by (rule run_race_eq)
  have f: "finish_time calm_runner_done = Some 2" "finish_time stalled_runner = None"
    by (simp_all add: calm_runner_done_def stalled_runner_def new_runner_def)
  have o: "ordered [stalled_runner, calm_runner_done] = [calm_runner_done, stalled_runner]"
    by (simp add: ordered_def sort_key_runner_def f)
  from ranking_law[OF h, of 20] u
  have "filter (\<lambda>r. finish_time r = None) (ordered [stalled_runner, calm_runner_done]) =
        filter (\<lambda>r. finish_time r = None) [stalled_runner, calm_runner_done]" by auto
  hence "filter (\<lambda>r. finish_time r = None) (ordered [stalled_runner, calm_runner_done]) =
     [stalled_runner]" using f by simp
  with h u f o show ?thesis by blast
qed

subsection \<open>C4: the position never decreases\<close>

text \<open>
  Claim C4: for every competitor and every single update call with \<open>dt > 0\<close> that
  returns (every call does, lemma \<open>update_total\<close>), the position after the call is
  greater than or equal to the position before the call. The competitors are those of
  the data model, whose position lies in \<open>0..RACE_DISTANCE\<close>, and those of a run, whose
  state is reached from the initial state by update calls; the theorem has one part
  for each reading:
  \<^item> a competitor that is finished or whose position is at most the race distance;
  \<^item> a competitor in a state that some sequence of update calls (any time steps)
    reaches from the initial state, for a race distance that is not negative.
  Stage 6 sets a position that has reached the race distance to the race distance, so
  the position of a run never exceeds it (lemma \<open>updates_position_le\<close>), and stage 5
  leaves a speed that is not negative.
\<close>

theorem position_non_decreasing:
  assumes "0 < dt" and "update race_distance dt global_time race_progress r = Inr r'"
  shows "(finished r \<or> position r \<le> race_distance \<longrightarrow> position r \<le> position r') \<and>
         (\<forall>r0 calls. initial_state r0 \<and> 0 \<le> race_distance \<and>
              updates race_distance calls r0 = Inr r \<longrightarrow> position r \<le> position r')"
proof (intro conjI impI allI)
  have dt: "0 \<le> dt" using assms(1) by simp
  show "position r \<le> position r'" if "finished r \<or> position r \<le> race_distance"
    using dt assms(2) that by (rule update_position_mono)
  show "position r \<le> position r'"
    if "initial_state r0 \<and> 0 \<le> race_distance \<and> updates race_distance calls r0 = Inr r"
    for r0 calls
  proof -
    from that have "position r0 \<le> race_distance" by (simp add: initial_state_def)
    with that have "position r \<le> race_distance" using updates_position_le by blast
    hence "finished r \<or> position r \<le> race_distance" ..
    with dt assms(2) show ?thesis by (rule update_position_mono)
  qed
qed

theorem position_non_decreasing_witness:
  "(0::real) < 1 / 10 \<and>
   update RACE_DISTANCE (1 / 10) (1 / 10) 0
       (calm_runner\<lparr>stamina := 100, speed := 1 / 2, position := 1 / 20\<rparr>) =
     Inr (calm_runner\<lparr>stamina := 100, speed := 1, position := 3 / 20\<rparr>) \<and>
   position (calm_runner\<lparr>stamina := 100, speed := 1 / 2, position := 1 / 20\<rparr>) \<le> RACE_DISTANCE \<and>
   initial_state calm_runner \<and> 0 \<le> RACE_DISTANCE \<and>
   updates RACE_DISTANCE [(1 / 10, 0, 0)] calm_runner =
     Inr (calm_runner\<lparr>stamina := 100, speed := 1 / 2, position := 1 / 20\<rparr>) \<and>
   position (calm_runner\<lparr>stamina := 100, speed := 1 / 2, position := 1 / 20\<rparr>)
     \<le> position (calm_runner\<lparr>stamina := 100, speed := 1, position := 3 / 20\<rparr>)"
proof -
  have d: "(0::real) < 1 / 10" by simp
  have u1: "update RACE_DISTANCE (1 / 10) 0 0 calm_runner =
     Inr (calm_runner\<lparr>stamina := 100, speed := 1 / 2, position := 1 / 20\<rparr>)"
    by (simp add: calm_runner_def new_runner_def RACE_DISTANCE_def
      update_unfinished speed_after_def stamina_after_def speed_fraction_of_def
      approach_speed_def effective_target_def ability_target_def ability_stamina_def
      personality_target_def stamina_mechanics_def Let_def)
  have u2: "update RACE_DISTANCE (1 / 10) (1 / 10) 0
       (calm_runner\<lparr>stamina := 100, speed := 1 / 2, position := 1 / 20\<rparr>) =
     Inr (calm_runner\<lparr>stamina := 100, speed := 1, position := 3 / 20\<rparr>)"
    by (simp add: calm_runner_def new_runner_def RACE_DISTANCE_def
      update_unfinished speed_after_def stamina_after_def speed_fraction_of_def
      approach_speed_def effective_target_def ability_target_def ability_stamina_def
      personality_target_def stamina_mechanics_def Let_def)
  have us: "updates RACE_DISTANCE [(1 / 10, 0, 0)] calm_runner =
     Inr (calm_runner\<lparr>stamina := 100, speed := 1 / 2, position := 1 / 20\<rparr>)"
    using u1 by simp
  have h: "position (calm_runner\<lparr>stamina := 100, speed := 1 / 2, position := 1 / 20\<rparr>)
             \<le> RACE_DISTANCE" "initial_state calm_runner" "0 \<le> RACE_DISTANCE"
    by (simp_all add: calm_runner_def new_runner_def RACE_DISTANCE_def initial_state_def)
  from position_non_decreasing[OF d u2] h
  have "position (calm_runner\<lparr>stamina := 100, speed := 1 / 2, position := 1 / 20\<rparr>)
     \<le> position (calm_runner\<lparr>stamina := 100, speed := 1, position := 3 / 20\<rparr>)" by blast
  with d u2 us h show ?thesis by blast
qed

subsection \<open>C5: no change once finished\<close>

text \<open>
  Claim C5: if a competitor's \<open>finished\<close> flag is true, a call of \<open>update\<close> with any
  arguments returns and leaves the runner as it was: position, speed, stamina,
  \<open>finished\<close> and \<open>finish_time\<close> (and every other field) are unchanged.
\<close>

theorem update_noop_when_finished:
  "finished r \<Longrightarrow> update race_distance dt global_time race_progress r = Inr r"
  by (simp add: update_def)

theorem update_noop_when_finished_witness:
  "finished calm_runner_done \<and>
   update RACE_DISTANCE (1 / 10) 30 1 calm_runner_done = Inr calm_runner_done"
proof -
  have h: "finished calm_runner_done" by (simp add: calm_runner_done_def)
  from update_noop_when_finished[OF h] h show ?thesis by blast
qed

subsection \<open>C6: the lung-type ability\<close>

text \<open>
  Claim C6: for a not-yet-finished competitor with the ability \<^verbatim>\<open>deep_inhale\<close>, the
  stamina that enters stage 3 of one update call is the stamina at the start of the
  call plus \<open>stamina_regen * 3.0 * dt\<close> exactly when the floor of the position is a
  multiple of 20 and the position is positive at the start of the call, and the plain
  stamina otherwise; the call returns, and the stamina it stores is the drain,
  regeneration and clamp of stage 3 applied to that value. The condition reads the
  position of the current call only, so the bonus is given on every tick for which
  it holds; the witness shows two consecutive ticks, at 20 m and at 20.345 m, that
  both receive it.
\<close>

theorem deep_inhale_every_tick:
  assumes "\<not> finished r" and "ability r = ''deep_inhale''"
  shows "ability_stamina dt r =
           stamina r + (if deep_inhale_trigger r then stamina_regen r * 3.0 * dt else 0) \<and>
         (\<exists>r'. update race_distance dt global_time race_progress r = Inr r' \<and>
               stamina r' =
                 stamina_mechanics dt r (speed_fraction_of r)
                   (stamina r +
                    (if deep_inhale_trigger r then stamina_regen r * 3.0 * dt else 0)))"
proof -
  have a: "ability_stamina dt r =
           stamina r + (if deep_inhale_trigger r then stamina_regen r * 3.0 * dt else 0)"
    using assms(2) by (rule ability_stamina_deep_inhale)
  obtain r' where r': "update race_distance dt global_time race_progress r = Inr r'"
    using update_total by blast
  have "stamina r' = stamina_mechanics dt r (speed_fraction_of r) (ability_stamina dt r)"
    using r' assms(1) by (auto simp: update_unfinished stamina_after_def split: if_splits)
  with a r' show ?thesis by simp
qed

theorem deep_inhale_every_tick_witness:
  "\<not> finished lung_runner \<and> ability lung_runner = ''deep_inhale'' \<and>
   deep_inhale_trigger lung_runner \<and>
   update RACE_DISTANCE (1 / 10) 5 (1 / 10) lung_runner = Inr lung_runner_next \<and>
   \<not> finished lung_runner_next \<and> ability lung_runner_next = ''deep_inhale'' \<and>
   deep_inhale_trigger lung_runner_next \<and>
   ability_stamina (1 / 10) lung_runner = stamina lung_runner + 21 / 10 \<and>
   ability_stamina (1 / 10) lung_runner_next = stamina lung_runner_next + 21 / 10"
proof -
  have a: "\<not> finished lung_runner" "ability lung_runner = ''deep_inhale''"
    "deep_inhale_trigger lung_runner"
    by (simp_all add: lung_runner_def new_runner_def deep_inhale_trigger_def)
  have b: "\<not> finished lung_runner_next" "ability lung_runner_next = ''deep_inhale''"
    "deep_inhale_trigger lung_runner_next"
    by (simp_all add: lung_runner_next_def lung_runner_def new_runner_def deep_inhale_trigger_def)
  have r: "stamina_regen lung_runner = 7" "stamina_regen lung_runner_next = 7"
    by (simp_all add: lung_runner_next_def lung_runner_def new_runner_def)
  have u: "update RACE_DISTANCE (1 / 10) 5 (1 / 10) lung_runner = Inr lung_runner_next"
    by (simp add: lung_runner_next_def lung_runner_def new_runner_def RACE_DISTANCE_def eval_update)
  from deep_inhale_every_tick[OF a(1,2), of "1 / 10" RACE_DISTANCE 5 "1 / 10"]
    deep_inhale_every_tick[OF b(1,2), of "1 / 10" RACE_DISTANCE 5 "1 / 10"]
    a b r u
  show ?thesis by simp
qed

subsection \<open>C7: the loop ends\<close>

text \<open>
  Claim C7 as it is written fails in its bound on the number of ticks. The clock of the
  loop is a binary64 number and every \<^verbatim>\<open>t += DT\<close> is rounded. With the time step of the
  module, the binary64 number \<open>DT_double\<close> that \<^verbatim>\<open>0.1\<close> denotes, and a cap of 1, the
  clock after ten ticks is \<^verbatim>\<open>0.9999999999999999\<close>, below the cap, and the loop runs an
  eleventh tick: 11 ticks, and \<open>\<lceil>1 / DT_double\<rceil> = 10\<close>. The runner of the example has
  top speed 0 and never moves, so only the cap ends its race.
\<close>

theorem race_loop_stops_within_cap_counterexample:
  "0 < DT_double \<and> double_round (1 / 10) = DT_double \<and>
   frames_recorded (race_loop_float DT_double RACE_DISTANCE 1 0 [] [stalled_runner]) = Some 11 \<and>
   nat \<lceil>1 / DT_double\<rceil> = 10 \<and> \<not> (11::nat) \<le> 10"
proof -
  have "0 < DT_double" "nat \<lceil>1 / DT_double\<rceil> = 10" by (simp_all add: DT_double_def)
  with double_round_tenth eleven_ticks show ?thesis by simp
qed

text \<open>
  Claim C7, amended: started at \<open>t = 0\<close> with a time step \<open>dt > 0\<close> and a cap with
  \<open>(\<lceil>max_time / dt\<rceil> + 1)\<^sup>2 \<le> 2^53\<close>, the race loop (with its binary64 clock) returns.
  It has then run \<open>n\<close> ticks, one frame each, with \<open>n \<le> \<lceil>max_time / dt\<rceil> + 1\<close> (the
  ceiling as a number of ticks, so 0 when the cap is negative); at the exit the time
  has reached the cap or every competitor has finished, and before each of the \<open>n\<close>
  ticks neither was the case, so the loop stops at the first tick boundary where one
  of them holds. In particular, for a non-empty roster in the initial state and a cap
  \<open>max_time \<ge> 0\<close> that is not above any competitor's natural finish time (the finish
  times of the race run with some larger cap are all unset or at least \<open>max_time\<close>),
  every competitor ends with \<open>finish_time\<close> unset and the loop stops with
  \<open>max_time \<le> t \<le> (max_time + dt) * (1 + 2^-53)\<close>.

  What the rounding costs is one tick in the bound and one rounding error in the last
  clock value: with an exact clock the loop runs at most \<open>\<lceil>max_time / dt\<rceil>\<close> ticks and
  stops with \<open>t < max_time + dt\<close> (lemmas \<open>race_loop_runs\<close> and
  \<open>race_loop_cap_below_finish\<close>). The condition on \<open>max_time / dt\<close> holds for the
  constants of the module, where it reads \<open>401\<^sup>2 \<le> 2^53\<close>. A condition of this kind is
  needed for the loop to return at all: a clock that has reached \<open>2^53\<close> is not moved
  by adding 1, so that with \<open>dt = 1\<close> and a cap of \<open>2^54\<close> a race that nobody finishes
  never ends (lemma \<open>unit_step_stalls\<close>).
\<close>

theorem race_loop_stops_within_cap:
  assumes "0 < dt" and "(real (nat \<lceil>max_time / dt\<rceil>) + 1)\<^sup>2 \<le> 2 ^ 53"
  shows "\<exists>n t fs rs.
      race_loop_float dt race_distance max_time 0 [] roster = Some (Inr (t, fs, rs)) \<and>
      ticks_float n dt race_distance 0 [] roster = Inr (t, fs, rs) \<and>
      length fs = n \<and> n \<le> nat \<lceil>max_time / dt\<rceil> + 1 \<and>
      (max_time \<le> t \<or> list_all finished rs) \<and>
      (\<forall>k<n. \<exists>tk fk rk. ticks_float k dt race_distance 0 [] roster = Inr (tk, fk, rk) \<and>
                 tk < max_time \<and> \<not> list_all finished rk) \<and>
      (\<forall>cap t2 fs2 rs2.
         list_all initial_state roster \<and> roster \<noteq> [] \<and> 0 \<le> max_time \<and> max_time \<le> cap \<and>
         race_loop_float dt race_distance cap 0 [] roster = Some (Inr (t2, fs2, rs2)) \<and>
         list_all (not_before max_time) rs2 \<longrightarrow>
         list_all (\<lambda>r. finish_time r = None) rs \<and> max_time \<le> t \<and>
         t \<le> (max_time + dt) * (1 + unit_roundoff))"
proof -
  note cond = roundoff_condition[OF assms(2)]
  obtain n t fs rs where
    run: "race_loop_float dt race_distance max_time 0 [] roster = Some (Inr (t, fs, rs))"
    and n: "ticks_float n dt race_distance 0 [] roster = Inr (t, fs, rs)"
    and shape: "length fs = n" "n \<le> Suc (nat \<lceil>max_time / dt\<rceil>)"
    and stop: "\<not> running max_time (t, fs, rs)"
    and before: "\<forall>k<n. \<exists>sk. ticks_float k dt race_distance 0 [] roster = Inr sk \<and>
                   running max_time sk"
    using race_loop_float_runs[OF assms(1) cond, of race_distance roster] by blast
  have stop': "max_time \<le> t \<or> list_all finished rs"
    using stop by (auto simp: running_def)
  have before': "\<forall>k<n. \<exists>tk fk rk. ticks_float k dt race_distance 0 [] roster = Inr (tk, fk, rk) \<and>
                 tk < max_time \<and> \<not> list_all finished rk"
    using before by (fastforce simp: running_def)
  have dnf: "list_all (\<lambda>r. finish_time r = None) rs \<and> max_time \<le> t \<and>
             t \<le> (max_time + dt) * (1 + unit_roundoff)"
    if "list_all initial_state roster" "roster \<noteq> []" "0 \<le> max_time" "max_time \<le> cap"
      "race_loop_float dt race_distance cap 0 [] roster = Some (Inr (t2, fs2, rs2))"
      "list_all (not_before max_time) rs2" for cap t2 fs2 rs2
    using assms(1) that(1-4) run that(5,6) by (rule race_loop_float_cap_below_finish)
  have bound: "n \<le> nat \<lceil>max_time / dt\<rceil> + 1" using shape(2) by simp
  show ?thesis
    using run n shape(1) bound stop' before' dnf by blast
qed

theorem race_loop_stops_within_cap_witness:
  "(0::real) < 1 \<and> (real (nat \<lceil>2 / (1::real)\<rceil>) + 1)\<^sup>2 \<le> 2 ^ 53 \<and>
   list_all initial_state [calm_runner] \<and> (0::real) \<le> 2 \<and> 2 \<le> MAX_RACE_TIME \<and>
   (\<exists>t2 fs2. race_loop_float 1 20 MAX_RACE_TIME 0 [] [calm_runner] =
        Some (Inr (t2, fs2, [calm_runner_done]))) \<and>
   list_all (not_before 2) [calm_runner_done] \<and>
   (\<exists>n t fs rs. race_loop_float 1 20 2 0 [] [calm_runner] = Some (Inr (t, fs, rs)) \<and>
      length fs = n \<and> n \<le> nat \<lceil>2 / (1::real)\<rceil> + 1 \<and>
      list_all (\<lambda>r. finish_time r = None) rs \<and> 2 \<le> t \<and>
      t \<le> (2 + 1) * (1 + unit_roundoff)) \<and>
   0 < DT_double \<and> (real (nat \<lceil>MAX_RACE_TIME / DT_double\<rceil>) + 1)\<^sup>2 \<le> 2 ^ 53 \<and>
   (\<exists>n t fs rs. race_loop_float DT_double RACE_DISTANCE MAX_RACE_TIME 0 [] create_runners =
        Some (Inr (t, fs, rs)) \<and>
      length fs = n \<and> n \<le> 401 \<and> (MAX_RACE_TIME \<le> t \<or> list_all finished rs))"
proof -
  have d: "(0::real) < 1" "(real (nat \<lceil>2 / (1::real)\<rceil>) + 1)\<^sup>2 \<le> 2 ^ 53" by simp_all
  have h: "list_all initial_state [calm_runner]" "[calm_runner] \<noteq> []" "(0::real) \<le> 2"
    "2 \<le> MAX_RACE_TIME"
    by (simp_all add: calm_runner_def new_runner_def initial_state_def MAX_RACE_TIME_def)
  obtain t2 fs2 where u:
    "race_loop_float 1 20 MAX_RACE_TIME 0 [] [calm_runner] =
       Some (Inr (t2, fs2, [calm_runner_done]))"
    using sprint_float_uncapped by blast
  have nb: "list_all (not_before 2) [calm_runner_done]"
    by (simp add: not_before_def calm_runner_done_def)
  from race_loop_stops_within_cap[OF d, of 20 "[calm_runner]"]
  obtain n t fs rs where r: "race_loop_float 1 20 2 0 [] [calm_runner] = Some (Inr (t, fs, rs))"
    "length fs = n" "n \<le> nat \<lceil>2 / (1::real)\<rceil> + 1"
    and dnf: "\<forall>cap t2 fs2 rs2.
         list_all initial_state [calm_runner] \<and> [calm_runner] \<noteq> [] \<and> (0::real) \<le> 2 \<and>
         2 \<le> cap \<and>
         race_loop_float 1 20 cap 0 [] [calm_runner] = Some (Inr (t2, fs2, rs2)) \<and>
         list_all (not_before 2) rs2 \<longrightarrow>
         list_all (\<lambda>r. finish_time r = None) rs \<and> 2 \<le> t \<and>
         t \<le> (2 + 1) * (1 + unit_roundoff)"
    by blast
  from dnf[rule_format, of MAX_RACE_TIME t2 fs2 "[calm_runner_done]"] h u nb
  have "list_all (\<lambda>r. finish_time r = None) rs \<and> 2 \<le> t \<and>
        t \<le> (2 + 1) * (1 + unit_roundoff)" by simp
  with r have sprint: "\<exists>n t fs rs. race_loop_float 1 20 2 0 [] [calm_runner] = Some (Inr (t, fs, rs)) \<and>
      length fs = n \<and> n \<le> nat \<lceil>2 / (1::real)\<rceil> + 1 \<and>
      list_all (\<lambda>r. finish_time r = None) rs \<and> 2 \<le> t \<and>
      t \<le> (2 + 1) * (1 + unit_roundoff)" by blast
  have ticks: "nat \<lceil>MAX_RACE_TIME / DT_double\<rceil> = 400"
    by (simp add: MAX_RACE_TIME_def DT_double_def)
  have m: "0 < DT_double" "(real (nat \<lceil>MAX_RACE_TIME / DT_double\<rceil>) + 1)\<^sup>2 \<le> 2 ^ 53"
    by (simp_all add: ticks) (simp add: DT_double_def)
  from race_loop_stops_within_cap[OF m, of RACE_DISTANCE create_runners] ticks
  have full: "\<exists>n t fs rs. race_loop_float DT_double RACE_DISTANCE MAX_RACE_TIME 0 [] create_runners =
        Some (Inr (t, fs, rs)) \<and>
      length fs = n \<and> n \<le> 401 \<and> (MAX_RACE_TIME \<le> t \<or> list_all finished rs)"
    by auto
  from d h u nb sprint m full show ?thesis by blast
qed

subsection \<open>C8: a top speed that is not positive\<close>

text \<open>
  Claim C8 as it is written fails in its second half. The guard of line 117 makes
  \<^verbatim>\<open>speed_fraction\<close> 0, but nothing sets the speed to 0: with a negative top speed
  the target speed is negative, and a fatigue penalty above 1 turns it into a positive
  effective target. The runner \<open>backward_runner\<close> (top speed -10, fatigue factor 3,
  stamina 1, acceleration 5) has speed 4 after its first update with \<open>dt = 1\<close>.
\<close>

theorem speed_zero_without_top_speed_counterexample:
  "initial_state backward_runner \<and> top_speed backward_runner \<le> 0 \<and> (0::real) < 1 \<and>
   map_sum id speed (updates RACE_DISTANCE [(1, 0, 0)] backward_runner) = Inr 4 \<and>
   (4::real) \<noteq> 0"
  by (simp add: backward_runner_def new_runner_def initial_state_def RACE_DISTANCE_def
      eval_update)

text \<open>
  Claim C8, amended: for every competitor with \<open>top_speed \<le> 0\<close> and every sequence of
  update calls with \<open>dt > 0\<close> starting from the initial state, the calls return and
  \<^verbatim>\<open>speed_fraction\<close> is computed as 0 in every update; if moreover the acceleration is
  not negative and either the top speed is 0, or the burst multiplier is not negative
  and the fatigue factor lies between 0 and 1, the speed after every update is 0.
\<close>

theorem speed_zero_without_top_speed:
  assumes "initial_state r0" and "top_speed r0 \<le> 0" and "\<forall>c \<in> set calls. 0 < fst c"
  shows "\<exists>r. updates race_distance calls r0 = Inr r \<and> speed_fraction r = Inr 0 \<and>
             (0 \<le> acceleration r0 \<and>
              (top_speed r0 = 0 \<or>
               (0 \<le> burst_multiplier r0 \<and> 0 \<le> fatigue_factor r0 \<and> fatigue_factor r0 \<le> 1))
              \<longrightarrow> speed r = 0)"
proof -
  obtain r where r: "updates race_distance calls r0 = Inr r" using updates_total by blast
  have "top_speed r = top_speed r0"
    using updates_same_static[OF r] by (simp add: same_static_def)
  hence sf: "speed_fraction r = Inr 0" using assms(2) by (simp add: speed_fraction_nonpos_top)
  have s0: "speed r0 = 0" using assms(1) by (simp add: initial_state_def)
  have "speed r = 0" if "0 \<le> acceleration r0"
    "top_speed r0 = 0 \<or>
       (0 \<le> burst_multiplier r0 \<and> 0 \<le> fatigue_factor r0 \<and> fatigue_factor r0 \<le> 1)"
    using r s0 assms(2) that(1) assms(3) that(2) by (rule updates_speed_zero)
  with r sf show ?thesis by blast
qed

theorem speed_zero_without_top_speed_witness:
  "initial_state stalled_runner \<and> top_speed stalled_runner \<le> 0 \<and>
   list_all (\<lambda>c. 0 < fst c)
     ([(1 / 10, 0, 7 / 10), (1 / 10, 1 / 10, 7 / 10)] :: (real \<times> real \<times> real) list) \<and>
   0 \<le> acceleration stalled_runner \<and> top_speed stalled_runner = 0 \<and>
   (\<exists>r. updates RACE_DISTANCE [(1 / 10, 0, 7 / 10), (1 / 10, 1 / 10, 7 / 10)] stalled_runner = Inr r \<and>
        speed_fraction r = Inr 0 \<and> speed r = 0)"
proof -
  have h: "initial_state stalled_runner" "top_speed stalled_runner \<le> 0"
    by (simp_all add: stalled_runner_def new_runner_def initial_state_def)
  have c: "\<forall>c \<in> set ([(1 / 10, 0, 7 / 10), (1 / 10, 1 / 10, 7 / 10)]
                    :: (real \<times> real \<times> real) list). 0 < fst c"
    by simp
  have p: "0 \<le> acceleration stalled_runner" "top_speed stalled_runner = 0"
    by (simp_all add: stalled_runner_def new_runner_def)
  from speed_zero_without_top_speed[OF h c, of RACE_DISTANCE] h p show ?thesis by auto
qed

subsection \<open>C9: no operation fails\<close>

text \<open>
  Claim C9 as it is written fails for the race loop: the loop is not total. A time
  step of 0 is a finite, well-typed input, and with it the clock never advances and
  no runner moves: the update returns the runner of the single-runner scenario
  unchanged, the test of line 291 stays true, and the loop never returns, with the
  binary64 clock and with the exact one.
\<close>

theorem engine_total_counterexample:
  "\<not> list_all finished [calm_runner] \<and> (0::real) < MAX_RACE_TIME \<and>
   update RACE_DISTANCE 0 0 0 calm_runner = Inr calm_runner \<and>
   race_loop_float 0 RACE_DISTANCE MAX_RACE_TIME 0 [] [calm_runner] = None \<and>
   race_loop 0 RACE_DISTANCE MAX_RACE_TIME 0 [] [calm_runner] = None"
  using zero_step_diverges_float[of "[]"] zero_step_diverges[of "[]"] zero_step_update[of 0 0]
  by (simp add: calm_runner_def new_runner_def MAX_RACE_TIME_def)

text \<open>
  Claim C9, amended: the single-tick update is total and no operation of the engine
  fails; the race loop returns when the time step is positive and the cap is not too
  many ticks away. For all inputs (real numbers, any static parameters, any state),
  \<^item> the single-tick update returns a runner: no operation of it raises;
  \<^item> \<^verbatim>\<open>speed_fraction\<close> is 0 when \<open>top_speed \<le> 0\<close>, \<^verbatim>\<open>stamina_fraction\<close> is 0 when
    \<open>stamina_max \<le> 0\<close>, and \<^verbatim>\<open>race_progress\<close> is 0 when \<open>race_distance \<le> 0\<close> (for the
    non-empty rosters the loop body is run on);
  \<^item> the loop body returns whenever the loop test lets it run (some runner is
    unfinished, so \<^verbatim>\<open>len(runners)\<close> is not 0);
  \<^item> with \<open>dt > 0\<close> the race loop, started in any state, never ends in an exception;
  \<^item> with \<open>dt > 0\<close> and \<open>(\<lceil>max_time / dt\<rceil> + 1)\<^sup>2 \<le> 2^53\<close> the race loop, started at
    \<open>t = 0\<close>, returns.
  The loop is the one with the binary64 clock. The statements about the loop are made
  for a positive time step: with a time step of 0 the loop need not return, and with a
  negative one of huge magnitude a binary64 position can overflow to an infinity, on
  which \<^verbatim>\<open>int\<close> raises, a failure outside the real numbers of this embedding. With a
  positive time step the speed is clamped at 0 from below and a position that reaches
  the race distance is set to it, so the position stays a number. The condition on
  \<open>max_time / dt\<close> is needed for the loop to return (lemma \<open>unit_step_stalls\<close>) and
  holds for the constants of the module.
\<close>

theorem engine_total:
  "(\<exists>r'. update race_distance dt global_time race_progress r = Inr r') \<and>
   (top_speed r \<le> 0 \<longrightarrow> speed_fraction r = Inr 0) \<and>
   (stamina_max r \<le> 0 \<longrightarrow> stamina_fraction r st = Inr 0) \<and>
   (race_distance \<le> 0 \<and> runners \<noteq> [] \<longrightarrow> race_progress_of race_distance runners = Inr 0) \<and>
   (\<not> list_all finished runners \<longrightarrow>
      (\<exists>s. race_tick_float dt race_distance t frames runners = Inr s)) \<and>
   (0 < dt \<longrightarrow> (\<forall>e. race_loop_float dt race_distance max_time t frames runners \<noteq> Some (Inl e))) \<and>
   (0 < dt \<and> (real (nat \<lceil>max_time / dt\<rceil>) + 1)\<^sup>2 \<le> 2 ^ 53 \<longrightarrow>
      (\<exists>s. race_loop_float dt race_distance max_time 0 [] runners = Some (Inr s)))"
proof (intro conjI impI allI)
  show "\<exists>r'. update race_distance dt global_time race_progress r = Inr r'"
    by (rule update_total)
  show "speed_fraction r = Inr 0" if "top_speed r \<le> 0"
    using that by (rule speed_fraction_nonpos_top)
  show "stamina_fraction r st = Inr 0" if "stamina_max r \<le> 0"
    using that by (simp add: stamina_fraction_def)
  show "race_progress_of race_distance runners = Inr 0"
    if "race_distance \<le> 0 \<and> runners \<noteq> []"
    using that by (simp add: race_progress_nonpos_distance)
  show "\<exists>s. race_tick_float dt race_distance t frames runners = Inr s"
    if "\<not> list_all finished runners"
  proof -
    from that have "runners \<noteq> []" by auto
    from race_tick_float_total[OF this, of dt race_distance t frames] show ?thesis by blast
  qed
  show "race_loop_float dt race_distance max_time t frames runners \<noteq> Some (Inl e)" for e
    by (rule race_loop_float_never_raises)
  show "\<exists>s. race_loop_float dt race_distance max_time 0 [] runners = Some (Inr s)"
    if "0 < dt \<and> (real (nat \<lceil>max_time / dt\<rceil>) + 1)\<^sup>2 \<le> 2 ^ 53"
  proof -
    from that have dt: "0 < dt"
      and c: "(real (nat \<lceil>max_time / dt\<rceil>) + 1)\<^sup>2 * unit_roundoff \<le> 1"
      by (simp_all add: roundoff_condition)
    from race_loop_float_runs[OF dt c, of race_distance runners] show ?thesis by blast
  qed
qed

theorem engine_total_witness:
  "top_speed degenerate_runner \<le> 0 \<and> stamina_max degenerate_runner \<le> 0 \<and>
   (0::real) \<le> 0 \<and> [degenerate_runner] \<noteq> [] \<and> \<not> list_all finished [degenerate_runner] \<and>
   (0::real) < 1 \<and> (real (nat \<lceil>MAX_RACE_TIME / 1\<rceil>) + 1)\<^sup>2 \<le> 2 ^ 53 \<and>
   (\<exists>r'. update 0 1 0 0 degenerate_runner = Inr r') \<and>
   speed_fraction degenerate_runner = Inr 0 \<and>
   stamina_fraction degenerate_runner 0 = Inr 0 \<and>
   race_progress_of 0 [degenerate_runner] = Inr 0 \<and>
   (\<exists>s. race_tick_float 1 0 0 [] [degenerate_runner] = Inr s) \<and>
   (\<exists>s. race_loop_float 1 0 MAX_RACE_TIME 0 [] [degenerate_runner] = Some (Inr s))"
proof -
  have h: "top_speed degenerate_runner \<le> 0" "stamina_max degenerate_runner \<le> 0"
    "(0::real) \<le> 0 \<and> [degenerate_runner] \<noteq> []" "\<not> list_all finished [degenerate_runner]"
    "(0::real) < 1" "(real (nat \<lceil>MAX_RACE_TIME / 1\<rceil>) + 1)\<^sup>2 \<le> 2 ^ 53"
    by (simp_all add: degenerate_runner_def new_runner_def MAX_RACE_TIME_def)
  from engine_total[of 0 1 0 0 degenerate_runner 0 "[degenerate_runner]" 0 "[]" MAX_RACE_TIME] h
  show ?thesis by simp
qed

subsection \<open>C10: finish times are below the cap and the sentinel\<close>

text \<open>
  Claim C10: a race from a roster in the initial state with a positive time step
  returns, and every competitor it returns whose \<open>finish_time\<close> is set has
  \<open>0 \<le> finish_time < max_time\<close>. Hence, for a cap of at most \<^verbatim>\<open>1e9\<close> (the module's
  \<^verbatim>\<open>MAX_RACE_TIME\<close> is 40), every set finish time is strictly below the sentinel of
  \<^verbatim>\<open>sort_key\<close>, and in the ranking no unfinished competitor is placed before a finished
  one. The witness is \<^verbatim>\<open>simulate_race\<close> itself: the roster of \<^verbatim>\<open>create_runners\<close> with the
  constants of the module.
\<close>

theorem finish_time_below_cap:
  assumes "list_all initial_state roster" and "0 < dt"
  shows "\<exists>fs rs. run_race roster dt race_distance max_time = Some (Inr (fs, rs)) \<and>
           list_all (\<lambda>r. case finish_time r of None \<Rightarrow> True
                         | Some ft \<Rightarrow> 0 \<le> ft \<and> ft < max_time) rs \<and>
           (max_time \<le> 1000000000 \<longrightarrow>
              list_all below_sentinel rs \<and>
              (\<forall>i j. i < length rs \<and> j < length rs \<and>
                     finish_time (ordered rs ! i) = None \<and>
                     finish_time (ordered rs ! j) \<noteq> None \<longrightarrow> j < i))"
proof -
  obtain t fs rs where run: "race_loop dt race_distance max_time 0 [] roster = Some (Inr (t, fs, rs))"
    and timed: "list_all (timed max_time) rs"
    using race_result_timed[OF assms] by blast
  have a: "list_all (\<lambda>r. case finish_time r of None \<Rightarrow> True
                         | Some ft \<Rightarrow> 0 \<le> ft \<and> ft < max_time) rs"
    using timed by (rule list.pred_mono_strong) (simp add: timed_def)
  have b: "list_all below_sentinel rs" if "max_time \<le> 1000000000"
    using timed by (rule list.pred_mono_strong) (simp add: timed_below_sentinel that)
  have c: "j < i" if "max_time \<le> 1000000000" "i < length rs" "j < length rs"
      "finish_time (ordered rs ! i) = None" "finish_time (ordered rs ! j) \<noteq> None" for i j
    using b[OF that(1)] that(3,2,5,4) by (rule ordered_unfinished_last)
  show ?thesis
    using run_race_eq[OF run] a b c by blast
qed

theorem finish_time_below_cap_witness:
  "list_all initial_state create_runners \<and> 0 < DT \<and> MAX_RACE_TIME \<le> 1000000000 \<and>
   (\<exists>fs rs. simulate_race = Some (Inr (fs, rs)) \<and>
      list_all (\<lambda>r. case finish_time r of None \<Rightarrow> True
                    | Some ft \<Rightarrow> 0 \<le> ft \<and> ft < MAX_RACE_TIME) rs \<and>
      list_all below_sentinel rs)"
proof -
  have h: "list_all initial_state create_runners" "0 < DT"
    by (simp_all add: create_runners_def new_runner_def initial_state_def DT_def)
  have m: "MAX_RACE_TIME \<le> 1000000000" by (simp add: MAX_RACE_TIME_def)
  from finish_time_below_cap[OF h, of RACE_DISTANCE MAX_RACE_TIME] m
  have "\<exists>fs rs. simulate_race = Some (Inr (fs, rs)) \<and>
      list_all (\<lambda>r. case finish_time r of None \<Rightarrow> True
                    | Some ft \<Rightarrow> 0 \<le> ft \<and> ft < MAX_RACE_TIME) rs \<and>
      list_all below_sentinel rs"
    unfolding simulate_race_def by blast
  with h m show ?thesis by simp
qed

end
